theory Spec2Isabelle
  imports Main "HOL-Library.AList" "HOL-Library.Char_ord" "HOL-Library.List_Lexorder"
    "HOL-Library.Product_Lexorder"
begin

section \<open>Python text primitives\<close>

text \<open>
  A Python \<open>str\<close> is a sequence of code points. It is modelled as a \<^typ>\<open>string\<close> whose
  characters are read as the code points 0 to 255 (Latin-1), which covers the German
  letters the tools treat specially: \<open>0xE4\<close>, \<open>0xF6\<close>, \<open>0xFC\<close> are the lower-case
  umlauts, \<open>0xC4\<close>, \<open>0xD6\<close>, \<open>0xDC\<close> the upper-case ones and \<open>0xDF\<close> the sharp s.
\<close>

definition cp :: "char \<Rightarrow> nat" where
  "cp c = of_char c"

text \<open>\<open>str.isspace\<close>, which is also the class \<open>\s\<close> of \<open>re\<close> on \<open>str\<close> patterns.\<close>

definition is_space :: "char \<Rightarrow> bool" where
  "is_space c \<longleftrightarrow> (9 \<le> cp c \<and> cp c \<le> 13) \<or> (28 \<le> cp c \<and> cp c \<le> 32) \<or> cp c = 133 \<or> cp c = 160"

definition lstrip :: "string \<Rightarrow> string" where
  "lstrip s = dropWhile is_space s"

definition rstrip :: "string \<Rightarrow> string" where
  "rstrip s = rev (dropWhile is_space (rev s))"

text \<open>\<open>s.strip()\<close>\<close>

definition strip :: "string \<Rightarrow> string" where
  "strip s = rstrip (lstrip s)"

text \<open>\<open>str.lower\<close> on one code point: \<open>A-Z\<close> and the Latin-1 capitals except the
  multiplication sign \<open>0xD7\<close>.\<close>

definition lower_char :: "char \<Rightarrow> char" where
  "lower_char c =
     (if (65 \<le> cp c \<and> cp c \<le> 90) \<or> (192 \<le> cp c \<and> cp c \<le> 222 \<and> cp c \<noteq> 215)
      then char_of (cp c + 32) else c)"

definition lower :: "string \<Rightarrow> string" where
  "lower s = map lower_char s"

text \<open>\<open>s.endswith(t)\<close>\<close>

definition endswith :: "string \<Rightarrow> string \<Rightarrow> bool" where
  "endswith s t \<longleftrightarrow> length t \<le> length s \<and> drop (length s - length t) s = t"

definition startswith :: "string \<Rightarrow> string \<Rightarrow> bool" where
  "startswith s t \<longleftrightarrow> take (length t) s = t"

section \<open>Conjugation table extractor\<close>

text \<open>A slot map is a Python \<open>dict\<close> from \<open>str\<close> to \<open>str\<close>: an association list in
  insertion order, written with \<^const>\<open>AList.update\<close> (an existing key keeps its place,
  a new key goes last).\<close>

type_synonym slots = "(string \<times> string) list"

definition PRONOUN_ORDER :: "string list" where
  "PRONOUN_ORDER = [''ich'', ''du'', ''Sie'', ''er'', ''sie_sg'', ''es'', ''wir'', ''ihr'', ''sie_pl'']"

text \<open>The alternatives of \<open>RE_PRONOUN_PAIR\<close>, in the order of the pattern.\<close>

definition RE_PRONOUNS :: "string list" where
  "RE_PRONOUNS = [''ich'', ''du'', ''er'', ''sie'', ''es'', ''wir'', ''ihr'', ''Sie'']"

definition IRREGULAR_MARKERS :: "string list" where
  "IRREGULAR_MARKERS = [''bin'', ''bist'', ''ist'', ''sind'', ''seid'',
     ''habe'', ''hast'', ''hat'', ''haben'',
     ''werde'', ''wirst'', ''wird'', ''werden'']"

text \<open>
  \<open>RE_PRONOUN_PAIR.match(s)\<close> for the pattern \<open>^(ich|du|er|sie|es|wir|ihr|Sie)\s+(.+?)\s*$\<close>,
  returning the groups 1 and 2. Every call in the source passes a stripped string, so
  \<open>s\<close> has no trailing white space: the lazy group 2 then has to run to the end of
  \<open>s\<close>, the greedy \<open>\s+\<close> takes the whole white-space run after the pronoun, and
  the match fails exactly when the remainder is empty or holds a line feed, which
  \<open>.\<close> does not match. No alternative is a prefix of another, so the first one that fits
  is the only one.
\<close>

definition re_pronoun_pair :: "string \<Rightarrow> (string \<times> string) option" where
  "re_pronoun_pair s =
     (case find (startswith s) RE_PRONOUNS of
        None \<Rightarrow> None
      | Some p \<Rightarrow>
          (let rest = drop (length p) s;
               r = dropWhile is_space rest
           in if rest \<noteq> [] \<and> is_space (hd rest) \<and> r \<noteq> [] \<and> CHR 0x0A \<notin> set r
              then Some (p, r) else None))"

definition normalize_pronoun :: "string \<Rightarrow> string" where
  "normalize_pronoun p = (if p = ''Sie'' then ''Sie'' else lower p)"

definition looks_like_pronoun_line :: "string \<Rightarrow> bool" where
  "looks_like_pronoun_line text = (re_pronoun_pair (strip text) \<noteq> None)"

text \<open>The inner function \<open>flush\<close>: it works on the variables \<open>tables\<close> and
  \<open>current\<close> of the enclosing call, here the two components of the loop state.\<close>

type_synonym xstate = "slots list \<times> slots"

definition flush :: "xstate \<Rightarrow> xstate" where
  "flush st = (case st of (tables, current) \<Rightarrow>
     (if length current \<ge> 4 then tables @ [current] else tables, []))"

text \<open>The handling of the ambiguous pronoun \<open>sie\<close> (lines 85 to 94).\<close>

definition put_sie :: "string \<Rightarrow> slots \<Rightarrow> slots" where
  "put_sie form current =
     (let er_form = lower (strip (case map_of current ''er'' of None \<Rightarrow> [] | Some v \<Rightarrow> v));
          form_low = lower form
      in if map_of current ''sie_sg'' = None
            \<and> ((er_form \<noteq> [] \<and> form_low = er_form) \<or> endswith form_low ''t'')
         then AList.update ''sie_sg'' form current
         else if map_of current ''sie_pl'' = None
         then AList.update ''sie_pl'' form current
         else AList.update ''sie_pl'' form current)"

text \<open>One iteration of the loop over \<open>lines\<close>.\<close>

definition step :: "string \<Rightarrow> xstate \<Rightarrow> xstate" where
  "step line st =
     (case re_pronoun_pair (strip line) of
        None \<Rightarrow> flush st
      | Some (p_raw, g2) \<Rightarrow>
          (let form = strip g2; p = normalize_pronoun p_raw
           in case st of (tables, current) \<Rightarrow>
                if p \<noteq> ''sie'' then (tables, AList.update p form current)
                else (tables, put_sie form current)))"

fun scan :: "string list \<Rightarrow> xstate \<Rightarrow> xstate" where
  "scan [] st = st"
| "scan (line # lines) st = scan lines (step line st)"

text \<open>\<open>tuple(sorted(t.items()))\<close>, the key of the exact-duplicate filter.\<close>

definition items_key :: "slots \<Rightarrow> (string \<times> string) list" where
  "items_key t = sort t"

fun uniq_tables :: "slots list \<Rightarrow> (string \<times> string) list list \<Rightarrow> slots list" where
  "uniq_tables [] seen = []"
| "uniq_tables (t # ts) seen =
     (if items_key t \<notin> set seen then t # uniq_tables ts (items_key t # seen)
      else uniq_tables ts seen)"

definition extract_tables_from_group :: "string list \<Rightarrow> slots list" where
  "extract_tables_from_group lines = uniq_tables (fst (flush (scan lines ([], [])))) []"

text \<open>\<open>ordered_forms\<close>: the canonical slots first, then the leftover keys in their own
  order.\<close>

definition ordered_forms :: "slots \<Rightarrow> slots" where
  "ordered_forms table =
     (let out = fold (\<lambda>p out. case map_of table p of
                                   None \<Rightarrow> out
                                 | Some v \<Rightarrow> AList.update p v out) PRONOUN_ORDER []
      in fold (\<lambda>(k, v) out. if map_of out k = None then AList.update k v out else out) table out)"

definition SEIN_FORMS :: "string list" where
  "SEIN_FORMS = [''bin'', ''bist'', ''ist'', ''sind'', ''seid'']"

definition HABEN_FORMS :: "string list" where
  "HABEN_FORMS = [''habe'', ''hast'', ''hat'', ''haben'']"

definition WERDEN_FORMS :: "string list" where
  "WERDEN_FORMS = [''werde'', ''wirst'', ''wird'', ''werden'']"

text \<open>\<open>table.get(k) or ""\<close>\<close>

definition get_or_empty :: "slots \<Rightarrow> string \<Rightarrow> string" where
  "get_or_empty table k = (case map_of table k of None \<Rightarrow> [] | Some v \<Rightarrow> v)"

definition guess_lemma :: "slots \<Rightarrow> string" where
  "guess_lemma table =
     (let forms = map (\<lambda>v. lower (strip v)) (filter (\<lambda>v. strip v \<noteq> []) (map snd table))
      in if \<exists>f \<in> set SEIN_FORMS. f \<in> set forms then ''sein''
         else if \<exists>f \<in> set HABEN_FORMS. f \<in> set forms then ''haben''
         else if \<exists>f \<in> set WERDEN_FORMS. f \<in> set forms then ''werden''
         else let wir = strip (get_or_empty table ''wir'') in
           if wir \<noteq> [] \<and> CHR '' '' \<notin> set wir then wir
           else let sie_form = strip (get_or_empty table ''Sie'') in
             if sie_form \<noteq> [] \<and> CHR '' '' \<notin> set sie_form then sie_form
             else let ich = strip (get_or_empty table ''ich'') in
               if ich \<noteq> [] then ich
               else (case find (\<lambda>v. strip v \<noteq> []) (map snd table) of
                       Some v \<Rightarrow> strip v
                     | None \<Rightarrow> []))"

text \<open>The three lower-case umlauts of the literal in \<open>detect_pattern\<close>.\<close>

definition UMLAUTS :: "string" where
  "UMLAUTS = [CHR 0xE4, CHR 0xF6, CHR 0xFC]"

definition detect_pattern :: "slots \<Rightarrow> string" where
  "detect_pattern table =
     (let forms = map lower (filter (\<lambda>v. v \<noteq> []) (map snd table))
      in if \<exists>f \<in> set forms. f \<in> set IRREGULAR_MARKERS then ''irregular''
         else let wir = lower (get_or_empty table ''wir'');
                  du = lower (get_or_empty table ''du'');
                  er = lower (get_or_empty table ''er'')
           in if wir = [] then ''unknown''
              else let wir4 = take 4 wir in
                if du \<noteq> [] \<and> take 4 du \<noteq> wir4 then ''stem_change''
                else if er \<noteq> [] \<and> take 4 er \<noteq> wir4 then ''stem_change''
                else if (\<exists>ch \<in> set UMLAUTS. ch \<in> set (du @ er))
                        \<and> \<not> (\<exists>ch \<in> set UMLAUTS. ch \<in> set wir)
                then ''stem_change''
                else ''regular'')"

text \<open>A row of \<open>items.csv\<close> as \<open>csv.DictReader\<close> gives it: a column the file lacks,
  or a field a short row lacks, reads as \<open>None\<close>.\<close>

record row =
  ppt_file :: "string option"
  slide_number :: "string option"
  norm_text :: "string option"

definition or_empty :: "string option \<Rightarrow> string" where
  "or_empty v = (case v of None \<Rightarrow> [] | Some s \<Rightarrow> s)"

text \<open>\<open>grouped.setdefault(key, []).append(t)\<close>\<close>

definition append_line :: "string \<times> string \<Rightarrow> string \<Rightarrow> ((string \<times> string) \<times> string list) list
    \<Rightarrow> ((string \<times> string) \<times> string list) list" where
  "append_line key t grouped =
     AList.update key ((case map_of grouped key of None \<Rightarrow> [] | Some ls \<Rightarrow> ls) @ [t]) grouped"

fun group_by_ppt_slide_acc :: "row list \<Rightarrow> ((string \<times> string) \<times> string list) list
    \<Rightarrow> ((string \<times> string) \<times> string list) list" where
  "group_by_ppt_slide_acc [] grouped = grouped"
| "group_by_ppt_slide_acc (r # rows) grouped =
     (let ppt = or_empty (ppt_file r);
          slide = or_empty (slide_number r);
          t = strip (or_empty (norm_text r))
      in if ppt = [] \<or> slide = [] \<or> t = [] then group_by_ppt_slide_acc rows grouped
         else group_by_ppt_slide_acc rows (append_line (ppt, slide) t grouped))"

definition group_by_ppt_slide :: "row list \<Rightarrow> ((string \<times> string) \<times> string list) list" where
  "group_by_ppt_slide rows = group_by_ppt_slide_acc rows []"

text \<open>A table of the output document. \<open>source\<close> holds \<open>ppt\<close> and \<open>int(slide)\<close>.\<close>

record out_table =
  table_id :: string
  lemma_guess :: string
  pattern_guess :: string
  forms :: slots
  source :: "string \<times> int"

datatype error = ValueError | AttributeError | TypeError | YAMLError

text \<open>
  The body of the loop of \<open>main\<close> for one slide. Python's builtin \<open>int\<close> on a \<open>str\<close>
  is the parameter \<open>to_int\<close> (\<open>None\<close> where it raises \<open>ValueError\<close>); it is only
  evaluated once a table is appended.
\<close>

definition pronoun_lines :: "string list \<Rightarrow> string list" where
  "pronoun_lines lines = filter looks_like_pronoun_line lines"

fun tables_of_slide :: "(string \<Rightarrow> int option) \<Rightarrow> string \<Rightarrow> string \<Rightarrow> slots list
    \<Rightarrow> error + out_table list" where
  "tables_of_slide to_int ppt slide [] = Inr []"
| "tables_of_slide to_int ppt slide (t # ts) =
     (case to_int slide of
        None \<Rightarrow> Inl ValueError
      | Some n \<Rightarrow>
          (case tables_of_slide to_int ppt slide ts of
             Inl e \<Rightarrow> Inl e
           | Inr rest \<Rightarrow>
               Inr (\<lparr>table_id = ppt @ ''__slide'' @ slide,
                     lemma_guess = guess_lemma t,
                     pattern_guess = detect_pattern t,
                     forms = ordered_forms t,
                     source = (ppt, n)\<rparr> # rest)))"

fun main_tables :: "(string \<Rightarrow> int option) \<Rightarrow> ((string \<times> string) \<times> string list) list
    \<Rightarrow> error + out_table list" where
  "main_tables to_int [] = Inr []"
| "main_tables to_int (((ppt, slide), lines) # grouped) =
     (if length (pronoun_lines lines) < 4 then main_tables to_int grouped
      else case tables_of_slide to_int ppt slide (extract_tables_from_group (pronoun_lines lines)) of
             Inl e \<Rightarrow> Inl e
           | Inr ts \<Rightarrow>
               (case main_tables to_int grouped of
                  Inl e \<Rightarrow> Inl e
                | Inr rest \<Rightarrow> Inr (ts @ rest)))"

text \<open>\<open>main\<close> of the extractor after \<open>items.csv\<close> has been read: the list
  \<open>out_tables\<close> that is written, or the exception that ends the run before any write.\<close>

definition extract_main :: "(string \<Rightarrow> int option) \<Rightarrow> row list \<Rightarrow> error + out_table list" where
  "extract_main to_int rows = main_tables to_int (group_by_ppt_slide rows)"

text \<open>Invariants of the extractor's loop: a stored form is never empty and carries no
  surrounding white space; the keys of a slot map are distinct, as in any \<open>dict\<close>.\<close>

definition trimmed :: "string \<Rightarrow> bool" where
  "trimmed s \<longleftrightarrow> s \<noteq> [] \<and> \<not> is_space (hd s) \<and> \<not> is_space (last s)"

definition good_slots :: "slots \<Rightarrow> bool" where
  "good_slots t \<longleftrightarrow> distinct (map fst t) \<and> (\<forall>v \<in> snd ` set t. trimmed v)"

definition good_state :: "xstate \<Rightarrow> bool" where
  "good_state st \<longleftrightarrow> (\<forall>t \<in> set (fst st). good_slots t \<and> 4 \<le> length t) \<and> good_slots (snd st)"

text \<open>
  The rule for \<open>sie\<close> in the words of the specification, once with the candidate form
  alone lowercased (\<open>claimed_put_sie\<close>, the sentence as it stands) and once with both
  sides of the comparison lowercased (\<open>spec_put_sie\<close>).
\<close>

definition claimed_put_sie :: "string \<Rightarrow> slots \<Rightarrow> slots" where
  "claimed_put_sie form current =
     (if map_of current ''sie_sg'' = None
         \<and> (map_of current ''er'' = Some (lower form) \<or> endswith (lower form) ''t'')
      then AList.update ''sie_sg'' form current
      else if map_of current ''sie_pl'' = None then AList.update ''sie_pl'' form current
      else AList.update ''sie_pl'' form current)"

definition spec_put_sie :: "string \<Rightarrow> slots \<Rightarrow> slots" where
  "spec_put_sie form current =
     (if map_of current ''sie_sg'' = None
         \<and> ((case map_of current ''er'' of None \<Rightarrow> False | Some e \<Rightarrow> lower form = lower e)
              \<or> endswith (lower form) ''t'')
      then AList.update ''sie_sg'' form current
      else if map_of current ''sie_pl'' = None then AList.update ''sie_pl'' form current
      else AList.update ''sie_pl'' form current)"

text \<open>What the loop reads off a line: the normalized pronoun and the stripped form, or
  \<open>None\<close> for a line that does not match.\<close>

definition parse_line :: "string \<Rightarrow> (string \<times> string) option" where
  "parse_line line =
     (case re_pronoun_pair (strip line) of
        None \<Rightarrow> None
      | Some (p_raw, g2) \<Rightarrow> Some (normalize_pronoun p_raw, strip g2))"

text \<open>The forms that the lines of a group give for one pronoun, in the order of the
  lines.\<close>

definition forms_for :: "string \<Rightarrow> string list \<Rightarrow> string list" where
  "forms_for p lines =
     concat (map (\<lambda>ln. case parse_line ln of
                          None \<Rightarrow> []
                        | Some (q, f) \<Rightarrow> if q = p then [f] else []) lines)"

text \<open>
  The states of a slot map on the way through a group whose \<open>sie\<close> lines are
  \<open>sie spricht\<close> and \<open>sie sprechen\<close>, by the \<open>sie\<close> forms still to come.
\<close>

definition sprechen_state :: "slots \<Rightarrow> string list \<Rightarrow> bool" where
  "sprechen_state c rem \<longleftrightarrow>
     (case map_of c ''er'' of None \<Rightarrow> True | Some e \<Rightarrow> e = ''spricht'')
     \<and> ((length rem = 2 \<and> (rem = [''spricht'', ''sprechen''] \<or> rem = [''sprechen'', ''spricht''])
            \<and> map_of c ''sie_sg'' = None \<and> map_of c ''sie_pl'' = None)
         \<or> (rem = [''sprechen''] \<and> map_of c ''sie_sg'' = Some ''spricht'' \<and> map_of c ''sie_pl'' = None)
         \<or> (rem = [''spricht''] \<and> map_of c ''sie_sg'' = None \<and> map_of c ''sie_pl'' = Some ''sprechen'')
         \<or> (rem = [] \<and> map_of c ''sie_sg'' = Some ''spricht'' \<and> map_of c ''sie_pl'' = Some ''sprechen''))"

section \<open>YAML values\<close>

text \<open>
  What \<open>yaml.safe_load\<close> returns, as far as the tools look at it: \<open>None\<close>, booleans,
  integers, strings, lists, and dictionaries in insertion order. Objects are values here; a
  document in which two places share one object (a YAML alias) is outside the model.
\<close>

datatype yaml =
    YNull
  | YBool bool
  | YInt int
  | YStr string
  | YList "yaml list"
  | YDict "(yaml \<times> yaml) list"

type_synonym ydict = "(yaml \<times> yaml) list"

text \<open>Truth value of an object, as in \<open>if x\<close>, \<open>x or y\<close>, \<open>not x\<close>.\<close>

fun truthy :: "yaml \<Rightarrow> bool" where
  "truthy YNull = False"
| "truthy (YBool b) = b"
| "truthy (YInt i) = (i \<noteq> 0)"
| "truthy (YStr s) = (s \<noteq> [])"
| "truthy (YList xs) = (xs \<noteq> [])"
| "truthy (YDict kvs) = (kvs \<noteq> [])"

text \<open>\<open>d.get(k)\<close>, \<open>k in d\<close> and \<open>d[k] = v\<close> for a string literal \<open>k\<close>.\<close>

definition dget :: "ydict \<Rightarrow> string \<Rightarrow> yaml option" where
  "dget d k = map_of d (YStr k)"

definition dset :: "string \<Rightarrow> yaml \<Rightarrow> ydict \<Rightarrow> ydict" where
  "dset k v d = AList.update (YStr k) v d"

text \<open>\<open>d.get(k, "")\<close>\<close>

definition dget_or_empty :: "ydict \<Rightarrow> string \<Rightarrow> yaml" where
  "dget_or_empty d k = (case dget d k of None \<Rightarrow> YStr [] | Some v \<Rightarrow> v)"

text \<open>Decimal digits of a natural number, as \<open>str\<close> and f-strings print it.\<close>

fun dec :: "nat \<Rightarrow> string" where
  "dec n = (if n < 10 then [char_of (48 + n)] else dec (n div 10) @ [char_of (48 + n mod 10)])"

definition str_of_int :: "int \<Rightarrow> string" where
  "str_of_int i = (if i < 0 then CHR ''-'' # dec (nat (- i)) else dec (nat i))"

section \<open>Identifier normalizer and lexical ID assigner\<close>

definition ARTICLES :: "string list" where
  "ARTICLES = [''der'', ''die'', ''das'']"

text \<open>\<open>UMLAUT_MAP\<close>, applied by \<open>str.translate\<close> to each code point.\<close>

definition UMLAUT_MAP :: "char \<Rightarrow> string" where
  "UMLAUT_MAP c =
     (if c = CHR 0xE4 \<or> c = CHR 0xC4 then ''AE''
      else if c = CHR 0xF6 \<or> c = CHR 0xD6 then ''OE''
      else if c = CHR 0xFC \<or> c = CHR 0xDC then ''UE''
      else if c = CHR 0xDF then ''SS''
      else [c])"

definition translate :: "(char \<Rightarrow> string) \<Rightarrow> string \<Rightarrow> string" where
  "translate m s = concat (map m s)"

text \<open>
  \<open>str.upper\<close> on one code point. The capitals of \<open>0xB5\<close> and \<open>0xFF\<close> lie beyond
  \<open>0xFF\<close>; the two are left as they are. The only caller replaces every code point
  outside \<open>A-Z0-9\<close> right afterwards, and either choice is outside that class.
\<close>

definition upper_char :: "char \<Rightarrow> string" where
  "upper_char c =
     (if (97 \<le> cp c \<and> cp c \<le> 122) \<or> (224 \<le> cp c \<and> cp c \<le> 254 \<and> cp c \<noteq> 247)
      then [char_of (cp c - 32)]
      else if cp c = 223 then ''SS''
      else [c])"

definition upper :: "string \<Rightarrow> string" where
  "upper s = concat (map upper_char s)"

text \<open>The class \<open>[A-Z0-9]\<close>.\<close>

definition is_id_char :: "char \<Rightarrow> bool" where
  "is_id_char c \<longleftrightarrow> (65 \<le> cp c \<and> cp c \<le> 90) \<or> (48 \<le> cp c \<and> cp c \<le> 57)"

text \<open>\<open>re.sub(P + "+", ".", s)\<close> for a class \<open>P\<close> of single code points: every
  maximal run of code points in \<open>P\<close> becomes one dot. The flag says that the
  preceding code point belonged to a run.\<close>

fun sub_runs :: "(char \<Rightarrow> bool) \<Rightarrow> bool \<Rightarrow> string \<Rightarrow> string" where
  "sub_runs P in_run [] = []"
| "sub_runs P in_run (c # cs) =
     (if P c then (if in_run then sub_runs P True cs else CHR ''.'' # sub_runs P True cs)
      else c # sub_runs P False cs)"

text \<open>\<open>s.strip(".")\<close>\<close>

definition strip_dots :: "string \<Rightarrow> string" where
  "strip_dots s = rev (dropWhile (\<lambda>c. c = CHR ''.'') (rev (dropWhile (\<lambda>c. c = CHR ''.'') s)))"

definition to_id_token :: "string \<Rightarrow> string" where
  "to_id_token s =
     (if s = [] then []
      else let s1 = upper (translate UMLAUT_MAP (strip s));
               s2 = sub_runs (\<lambda>c. \<not> is_id_char c) False s1;
               s3 = strip_dots s2
           in sub_runs (\<lambda>c. c = CHR ''.'') False s3)"

text \<open>\<open>s.split()\<close>: the maximal runs of code points that are not white space.
  The second argument is the word being read.\<close>

fun split_acc :: "string \<Rightarrow> string \<Rightarrow> string list" where
  "split_acc [] w = (if w = [] then [] else [w])"
| "split_acc (c # cs) w =
     (if is_space c then (if w = [] then split_acc cs [] else w # split_acc cs [])
      else split_acc cs (w @ [c]))"

definition split :: "string \<Rightarrow> string list" where
  "split s = split_acc s []"

text \<open>\<open>sep.join(parts)\<close>\<close>

fun join :: "string \<Rightarrow> string list \<Rightarrow> string" where
  "join sep [] = []"
| "join sep [p] = p"
| "join sep (p # q # ps) = p @ sep @ join sep (q # ps)"

definition parse_noun_text :: "string \<Rightarrow> string option \<times> string" where
  "parse_noun_text text =
     (let t = strip text
      in if t = [] then (None, [])
         else let parts = split t
              in if length parts \<ge> 2 \<and> lower (hd parts) \<in> set ARTICLES
                 then (Some (lower (hd parts)), join '' '' (tl parts))
                 else (None, t))"

definition category_prefix :: "string \<Rightarrow> string" where
  "category_prefix category =
     (let c = strip (lower category)
      in if c = ''noun'' then ''LEX.NOUN''
         else if c = ''verb'' then ''LEX.VERB''
         else if c = ''adjective'' then ''LEX.ADJ''
         else if c = ''adverb'' then ''LEX.ADV''
         else if c = ''time_numbers'' \<or> c = ''numbers_time'' then ''LEX.TIME''
         else ''LEX.'' @ (if to_id_token c \<noteq> [] then to_id_token c else ''ITEM''))"

text \<open>
  The \<open>text\<close> argument of \<open>make_lex_id\<close> is whatever \<open>item.get("text", "")\<close> gives.
  Both uses, \<open>(text or "").strip()\<close> in \<open>parse_noun_text\<close> and \<open>if not s: return ""\<close>
  followed by \<open>s.strip()\<close> in \<open>to_id_token\<close>, read a false object as the empty string
  and raise \<open>AttributeError\<close> on a true object that is not a \<open>str\<close>.
\<close>

fun text_or_empty :: "yaml \<Rightarrow> error + string" where
  "text_or_empty (YStr s) = Inr s"
| "text_or_empty v = (if truthy v then Inl AttributeError else Inr [])"

definition make_lex_id_str :: "string \<Rightarrow> string \<Rightarrow> string" where
  "make_lex_id_str category text =
     (let prefix = category_prefix category
      in if strip (lower category) = ''noun''
         then (case parse_noun_text text of (art, core) \<Rightarrow>
                 let core_tok = (if to_id_token core = [] then ''UNKNOWN'' else to_id_token core)
                 in case art of
                      Some a \<Rightarrow> prefix @ ''.'' @ core_tok @ ''.'' @ to_id_token a
                    | None \<Rightarrow> prefix @ ''.'' @ core_tok)
         else let tok = (if to_id_token text = [] then ''UNKNOWN'' else to_id_token text)
              in prefix @ ''.'' @ tok)"

definition make_lex_id :: "string \<Rightarrow> yaml \<Rightarrow> error + string" where
  "make_lex_id category text =
     (case text_or_empty text of Inl e \<Rightarrow> Inl e | Inr s \<Rightarrow> Inr (make_lex_id_str category s))"

text \<open>\<open>ensure_unique_id\<close>: the dictionary \<open>used\<close> is updated in place in the source
  and returned here beside the identifier.\<close>

type_synonym used = "(string \<times> int) list"

definition ensure_unique_id :: "string \<Rightarrow> used \<Rightarrow> string \<times> used" where
  "ensure_unique_id proposed used =
     (case map_of used proposed of
        None \<Rightarrow> (proposed, AList.update proposed 1 used)
      | Some n \<Rightarrow> (proposed @ ''.'' @ str_of_int (n + 1), AList.update proposed (n + 1) used))"

section \<open>Lexicon index builder\<close>

definition LEXICON_DIR :: string where
  "LEXICON_DIR = ''linguistic_rules/lexicon''"

definition INDEX_PATH :: string where
  "INDEX_PATH = LEXICON_DIR @ ''/index.yaml''"

text \<open>\<open>LEXICON_DIR / fname\<close>\<close>

definition partition_path :: "string \<Rightarrow> string" where
  "partition_path fname = LEXICON_DIR @ ''/'' @ fname"

text \<open>\<open>load_yaml\<close> after parsing: \<open>yaml.safe_load(f) or {}\<close>, which must be a
  \<open>dict\<close>.\<close>

definition load_yaml :: "yaml \<Rightarrow> error + ydict" where
  "load_yaml v =
     (if \<not> truthy v then Inr []
      else case v of YDict d \<Rightarrow> Inr d | _ \<Rightarrow> Inl ValueError)"

primrec load_all :: "(string \<times> yaml) list \<Rightarrow> error + (string \<times> ydict) list" where
  "load_all [] = Inr []"
| "load_all (f # rest) =
     (case load_yaml (snd f) of
        Inl e \<Rightarrow> Inl e
      | Inr d \<Rightarrow> (case load_all rest of Inl e \<Rightarrow> Inl e | Inr ds \<Rightarrow> Inr ((fst f, d) # ds)))"

text \<open>\<open>isinstance(lex_id, str) and lex_id.strip()\<close>: the stripped identifier an item
  already carries, if any.\<close>

definition assigned_id :: "yaml \<Rightarrow> string option" where
  "assigned_id item =
     (case item of
        YDict d \<Rightarrow> (case dget d ''lex_id'' of
                      Some (YStr s) \<Rightarrow> (if strip s \<noteq> [] then Some (strip s) else None)
                    | _ \<Rightarrow> None)
      | _ \<Rightarrow> None)"

text \<open>The inner loop of \<open>collect_all_existing_ids\<close> over the items of one file, with
  the running index \<open>i\<close>.\<close>

primrec collect_items :: "string \<Rightarrow> nat \<Rightarrow> yaml list \<Rightarrow> (string \<times> string) list
    \<Rightarrow> (string \<times> string) list" where
  "collect_items fname i [] seen = seen"
| "collect_items fname i (item # items) seen =
     (case assigned_id item of
        None \<Rightarrow> collect_items fname (Suc i) items seen
      | Some key \<Rightarrow>
          collect_items fname (Suc i) items
            (if map_of seen key = None then AList.update key (fname @ '':'' @ dec i) seen else seen))"

primrec collect_files :: "(string \<times> ydict) list \<Rightarrow> (string \<times> string) list
    \<Rightarrow> (string \<times> string) list" where
  "collect_files [] seen = seen"
| "collect_files (f # rest) seen =
     collect_files rest
       (case dget (snd f) ''items'' of
          Some (YList items) \<Rightarrow> collect_items (fst f) 0 items seen
        | _ \<Rightarrow> seen)"

definition collect_all_existing_ids :: "(string \<times> ydict) list \<Rightarrow> (string \<times> string) list" where
  "collect_all_existing_ids files_data = collect_files files_data []"

text \<open>An entry of the index: the dictionary \<open>build_index_entry\<close> builds, whose keys
  are fixed: the field \<open>entry_k\<close> stands for the key \<open>k\<close>. \<open>lex_id\<close> and
  \<open>category\<close> are always strings; the optional keys are absent when \<open>None\<close>.\<close>

record index_entry =
  entry_lex_id :: string
  entry_category :: string
  entry_text :: yaml
  entry_article :: "string option"
  entry_lemma :: "yaml option"
  entry_sources :: "yaml option"

text \<open>\<open>build_index_entry\<close>, for an item that carries the string \<open>lid\<close> under
  \<open>lex_id\<close>. On a noun \<open>parse_noun_text\<close> raises for a true \<open>text\<close> that is not a
  string; on a verb \<open>item.get("text", "").strip()\<close> raises for any \<open>text\<close> that is not
  a string.\<close>

definition build_index_entry :: "string \<Rightarrow> string \<Rightarrow> ydict \<Rightarrow> error + index_entry" where
  "build_index_entry category lid item =
     (let entry = \<lparr>entry_lex_id = lid, entry_category = category, entry_text = dget_or_empty item ''text'',
                    entry_article = None, entry_lemma = None, entry_sources = dget item ''sources''\<rparr>
      in if strip (lower category) = ''noun''
         then (case text_or_empty (dget_or_empty item ''text'') of
                 Inl e \<Rightarrow> Inl e
               | Inr s \<Rightarrow>
                   (case parse_noun_text s of (art, core) \<Rightarrow>
                      Inr (entry\<lparr>entry_article := art,
                                 entry_lemma := Some (if core \<noteq> [] then YStr (strip core)
                                                else dget_or_empty item ''text'')\<rparr>)))
         else if strip (lower category) = ''verb''
         then (case dget_or_empty item ''text'' of
                 YStr s \<Rightarrow> Inr (entry\<lparr>entry_lemma := Some (YStr (strip s))\<rparr>)
               | _ \<Rightarrow> Inl AttributeError)
         else Inr entry)"

text \<open>
  One iteration of the loop over the items of a file, for an item that is a \<open>dict\<close>:
  the item as the iteration leaves it, the counter dictionary, the index entry and whether
  an identifier was assigned.
\<close>

definition process_item :: "string \<Rightarrow> ydict \<Rightarrow> used \<Rightarrow> error + (ydict \<times> used \<times> index_entry \<times> bool)" where
  "process_item category d used =
     (case (case assigned_id (YDict d) of
              None \<Rightarrow>
                (case make_lex_id category (dget_or_empty d ''text'') of
                   Inl e \<Rightarrow> Inl e
                 | Inr proposed \<Rightarrow>
                     (case ensure_unique_id proposed used of
                        (final_id, used') \<Rightarrow> Inr (final_id, used', True)))
            | Some lid \<Rightarrow> Inr (lid, used, False)) of
        Inl e \<Rightarrow> Inl e
      | Inr (lid, used', changed) \<Rightarrow>
          (let d' = dset ''lex_id'' (YStr lid) d
           in case build_index_entry category lid d' of
                Inl e \<Rightarrow> Inl e
              | Inr entry \<Rightarrow> Inr (d', used', entry, changed)))"

text \<open>
  The loop over the items of one file. It returns the items as the loop leaves them, the
  counter dictionary, the index entries it appended and \<open>file_changed\<close>; an exception
  ends it. An item that is not a \<open>dict\<close> is passed over.
\<close>

primrec process_items :: "string \<Rightarrow> yaml list \<Rightarrow> used
    \<Rightarrow> error + (yaml list \<times> used \<times> index_entry list \<times> bool)" where
  "process_items category [] used = Inr ([], used, [], False)"
| "process_items category (item # items) used =
     (case item of
        YDict d \<Rightarrow>
          (case process_item category d used of
             Inl e \<Rightarrow> Inl e
           | Inr (d', used', entry, changed) \<Rightarrow>
               (case process_items category items used' of
                  Inl e \<Rightarrow> Inl e
                | Inr (items', used'', entries, changed') \<Rightarrow>
                    Inr (YDict d' # items', used'', entry # entries, changed \<or> changed')))
      | _ \<Rightarrow>
          (case process_items category items used of
             Inl e \<Rightarrow> Inl e
           | Inr (items', used', entries, changed) \<Rightarrow>
               Inr (item # items', used', entries, changed)))"

text \<open>What a run does to the file system, in order.\<close>

datatype fs_write =
    Backup string
  | DumpPartition string ydict
  | DumpIndex "index_entry list"

datatype outcome = Exit int | Raised error

text \<open>The exit status of the process: an uncaught exception ends Python with status 1.\<close>

fun exit_code :: "outcome \<Rightarrow> int" where
  "exit_code (Exit n) = n"
| "exit_code (Raised e) = 1"

record bstate =
  used_counts :: used
  index_items :: "index_entry list"
  writes :: "fs_write list"

text \<open>\<open>data.get("category", "").strip()\<close>\<close>

definition category_of :: "ydict \<Rightarrow> error + string" where
  "category_of data =
     (case dget_or_empty data ''category'' of YStr s \<Rightarrow> Inr (strip s) | _ \<Rightarrow> Inl AttributeError)"

text \<open>\<open>data.get("items", [])\<close>, \<open>None\<close> when it is not a list.\<close>

definition items_of :: "ydict \<Rightarrow> yaml list option" where
  "items_of data =
     (case dget data ''items'' of None \<Rightarrow> Some [] | Some (YList xs) \<Rightarrow> Some xs | Some _ \<Rightarrow> None)"

text \<open>
  The loop of \<open>main\<close> over \<open>files_data\<close>: \<open>process_file\<close> is one iteration, which
  either ends the run (\<open>return 2\<close> or an exception) or goes on with a new state. A
  changed file is backed up and rewritten at the end of its own iteration. The first
  component of \<open>process_files\<close> is the outcome when the loop ends the run, \<open>None\<close>
  when it runs through.
\<close>

datatype file_result =
    Ends outcome
  | Continues bstate

definition process_file :: "string \<Rightarrow> ydict \<Rightarrow> bstate \<Rightarrow> file_result" where
  "process_file fname data st =
     (case category_of data of
        Inl e \<Rightarrow> Ends (Raised e)
      | Inr category \<Rightarrow>
          if category = [] then Ends (Exit 2)
          else (case items_of data of
                  None \<Rightarrow> Ends (Exit 2)
                | Some items \<Rightarrow>
                    (case process_items category items (used_counts st) of
                       Inl e \<Rightarrow> Ends (Raised e)
                     | Inr (items', used', entries, file_changed) \<Rightarrow>
                         Continues
                           \<lparr>used_counts = used',
                            index_items = index_items st @ entries,
                            writes = writes st @
                              (if file_changed
                               then [Backup (partition_path fname),
                                     DumpPartition (partition_path fname) (dset ''items'' (YList items') data)]
                               else [])\<rparr>)))"

primrec process_files :: "(string \<times> ydict) list \<Rightarrow> bstate \<Rightarrow> outcome option \<times> bstate" where
  "process_files [] st = (None, st)"
| "process_files (f # rest) st =
     (case process_file (fst f) (snd f) st of
        Ends out \<Rightarrow> (Some out, st)
      | Continues st' \<Rightarrow> process_files rest st')"


text \<open>
  \<open>main\<close>. \<open>dir_exists\<close> says whether \<open>LEXICON_DIR\<close> exists, \<open>files\<close> holds the
  managed files that exist, in the order of \<open>MANAGED_FILES\<close>, each with its parsed
  content, and \<open>index_exists\<close> says whether \<open>INDEX_PATH\<close> exists. The result is the
  outcome and the writes made up to it.
\<close>

definition builder_main :: "bool \<Rightarrow> (string \<times> yaml) list \<Rightarrow> bool \<Rightarrow> outcome \<times> fs_write list" where
  "builder_main dir_exists files index_exists =
     (if \<not> dir_exists then (Exit 2, [])
      else case load_all files of
             Inl e \<Rightarrow> (Raised e, [])
           | Inr files_data \<Rightarrow>
               if files_data = [] then (Exit 2, [])
               else let used = map (\<lambda>(k, v). (k, 1)) (collect_all_existing_ids files_data)
                    in case process_files files_data
                              \<lparr>used_counts = used, index_items = [], writes = []\<rparr> of
                         (Some out, st) \<Rightarrow> (out, writes st)
                       | (None, st) \<Rightarrow>
                           (Exit 0,
                            writes st @ (if index_exists then [Backup INDEX_PATH] else [])
                              @ [DumpIndex (sort_key (\<lambda>e. (entry_category e, entry_lex_id e)) (index_items st))]))"

text \<open>
  The two defects of a partition: no category label, or an \<open>items\<close> field that is not a
  list. The label is missing when the key \<open>category\<close> is absent, when its value is a blank
  string, and when its value is no string at all (\<open>category: null\<close>, for one);
  \<open>category_not_str\<close> singles out the last case.
\<close>

definition category_missing :: "ydict \<Rightarrow> bool" where
  "category_missing data =
     (case dget data ''category'' of None \<Rightarrow> True | Some (YStr s) \<Rightarrow> strip s = [] | Some _ \<Rightarrow> True)"


definition items_malformed :: "ydict \<Rightarrow> bool" where
  "items_malformed data = (items_of data = None)"

definition malformed :: "ydict \<Rightarrow> bool" where
  "malformed data \<longleftrightarrow> category_missing data \<or> items_malformed data"

text \<open>The files a run has rewritten, and whether it wrote the index.\<close>

fun dumped_partitions :: "fs_write list \<Rightarrow> string list" where
  "dumped_partitions [] = []"
| "dumped_partitions (DumpPartition f d # ws) = f # dumped_partitions ws"
| "dumped_partitions (w # ws) = dumped_partitions ws"

fun index_written :: "fs_write list \<Rightarrow> bool" where
  "index_written [] = False"
| "index_written (DumpIndex es # ws) = True"
| "index_written (w # ws) = index_written ws"

text \<open>The identifiers of the index a run wrote.\<close>

fun index_ids :: "fs_write list \<Rightarrow> string list" where
  "index_ids [] = []"
| "index_ids (DumpIndex es # ws) = map entry_lex_id es"
| "index_ids (w # ws) = index_ids ws"

text \<open>A managed file whose content loads to a partition with one of the two defects.\<close>

definition partition_malformed :: "yaml \<Rightarrow> bool" where
  "partition_malformed v = (case load_yaml v of Inl e \<Rightarrow> False | Inr d \<Rightarrow> malformed d)"



section \<open>Integrity validator\<close>

text \<open>
  Python's \<open>repr\<close> and \<open>str\<close> on the values above. A string is quoted with \<open>'\<close>,
  or with \<open>"\<close> when it holds a \<open>'\<close> and no \<open>"\<close>; the backslash, the quote in
  use, tab, line feed and carriage return are escaped by a backslash, every other code
  point that is not printable as \<open>\xhh\<close>.
\<close>

definition hex_digit :: "nat \<Rightarrow> char" where
  "hex_digit n = (if n < 10 then char_of (48 + n) else char_of (87 + n))"

definition printable :: "char \<Rightarrow> bool" where
  "printable c \<longleftrightarrow> (32 \<le> cp c \<and> cp c \<le> 126) \<or> (161 \<le> cp c \<and> cp c \<noteq> 173)"

definition repr_char :: "char \<Rightarrow> char \<Rightarrow> string" where
  "repr_char quote c =
     (if c = CHR 0x5C then [CHR 0x5C, CHR 0x5C]
      else if c = quote then [CHR 0x5C, quote]
      else if c = CHR 0x09 then [CHR 0x5C, CHR ''t'']
      else if c = CHR 0x0A then [CHR 0x5C, CHR ''n'']
      else if c = CHR 0x0D then [CHR 0x5C, CHR ''r'']
      else if printable c then [c]
      else [CHR 0x5C, CHR ''x'', hex_digit (cp c div 16), hex_digit (cp c mod 16)])"

definition repr_str :: "string \<Rightarrow> string" where
  "repr_str s =
     (let quote = (if CHR 0x27 \<in> set s \<and> CHR 0x22 \<notin> set s then CHR 0x22 else CHR 0x27)
      in [quote] @ concat (map (repr_char quote) s) @ [quote])"

primrec py_repr :: "yaml \<Rightarrow> string"
  and py_repr_list :: "yaml list \<Rightarrow> string list"
  and py_repr_items :: "(yaml \<times> yaml) list \<Rightarrow> string list"
  and py_repr_item :: "yaml \<times> yaml \<Rightarrow> string" where
  "py_repr YNull = ''None''"
| "py_repr (YBool b) = (if b then ''True'' else ''False'')"
| "py_repr (YInt i) = str_of_int i"
| "py_repr (YStr s) = repr_str s"
| "py_repr (YList xs) = ''['' @ join '', '' (py_repr_list xs) @ '']''"
| "py_repr (YDict kvs) = ''{'' @ join '', '' (py_repr_items kvs) @ ''}''"
| "py_repr_list [] = []"
| "py_repr_list (x # xs) = py_repr x # py_repr_list xs"
| "py_repr_items [] = []"
| "py_repr_items (kv # kvs) = py_repr_item kv # py_repr_items kvs"
| "py_repr_item (k, v) = py_repr k @ '': '' @ py_repr v"









text \<open>What iterating over an object yields; \<open>None\<close> where Python raises
  \<open>TypeError\<close>.\<close>

fun iter_yaml :: "yaml \<Rightarrow> yaml list option" where
  "iter_yaml (YList xs) = Some xs"
| "iter_yaml (YDict kvs) = Some (map fst kvs)"
| "iter_yaml (YStr s) = Some (map (\<lambda>c. YStr [c]) s)"
| "iter_yaml v = None"












section \<open>Table deduplicator\<close>

text \<open>
  Equality and hashing of the objects that serve as dictionary keys and as members of
  tuples in sets: \<open>True\<close> equals 1 and \<open>False\<close> equals 0, otherwise two scalars are
  equal when they are the same. \<open>py_norm\<close> picks one representative, so that Python's
  \<open>==\<close> on scalars is equality of the representatives. Lists and dictionaries are not
  hashable.
\<close>

fun py_norm :: "yaml \<Rightarrow> yaml" where
  "py_norm (YBool b) = YInt (if b then 1 else 0)"
| "py_norm v = v"

fun hashable :: "yaml \<Rightarrow> bool" where
  "hashable (YList xs) = False"
| "hashable (YDict kvs) = False"
| "hashable v = True"

text \<open>\<open>(v or "").strip()\<close>\<close>

definition strip_or_empty :: "yaml \<Rightarrow> error + string" where
  "strip_or_empty v =
     (if \<not> truthy v then Inr []
      else case v of YStr s \<Rightarrow> Inr (strip s) | _ \<Rightarrow> Inl AttributeError)"

text \<open>The generator \<open>(k, (v or "").strip()) for k, v in forms.items()\<close>.\<close>

primrec stripped_items :: "(yaml \<times> yaml) list \<Rightarrow> error + (yaml \<times> string) list" where
  "stripped_items [] = Inr []"
| "stripped_items (kv # kvs) =
     (case strip_or_empty (snd kv) of
        Inl e \<Rightarrow> Inl e
      | Inr s \<Rightarrow> (case stripped_items kvs of Inl e \<Rightarrow> Inl e | Inr rest \<Rightarrow> Inr ((fst kv, s) # rest)))"

text \<open>
  \<open>sorted\<close> on the pairs. Tuples are ordered by their first differing component;
  strings are ordered among themselves and numbers among themselves, anything else raises
  \<open>TypeError\<close> once two pairs are compared, which any sort of two or more pairs with
  keys of different kinds has to do.
\<close>

fun key_kind :: "yaml \<Rightarrow> nat" where
  "key_kind (YStr s) = 1"
| "key_kind (YInt i) = 2"
| "key_kind (YBool b) = 2"
| "key_kind v = 0"

definition sortable :: "(yaml \<times> string) list \<Rightarrow> bool" where
  "sortable ps \<longleftrightarrow>
     length ps \<le> 1 \<or> (\<forall>p \<in> set ps. key_kind (fst p) = 1) \<or> (\<forall>p \<in> set ps. key_kind (fst p) = 2)"

fun key_less :: "yaml \<Rightarrow> yaml \<Rightarrow> bool" where
  "key_less (YStr a) (YStr b) = (a < b)"
| "key_less (YInt a) (YInt b) = (a < b)"
| "key_less a b = False"

definition pair_le :: "yaml \<times> string \<Rightarrow> yaml \<times> string \<Rightarrow> bool" where
  "pair_le p q =
     (if py_norm (fst p) = py_norm (fst q) then snd p \<le> snd q
      else key_less (py_norm (fst p)) (py_norm (fst q)))"

primrec insort_pair :: "yaml \<times> string \<Rightarrow> (yaml \<times> string) list \<Rightarrow> (yaml \<times> string) list" where
  "insort_pair p [] = [p]"
| "insort_pair p (q # qs) = (if pair_le p q then p # q # qs else q # insort_pair p qs)"

definition py_sorted :: "(yaml \<times> string) list \<Rightarrow> error + (yaml \<times> string) list" where
  "py_sorted ps = (if sortable ps then Inr (foldr insort_pair ps []) else Inl TypeError)"

text \<open>\<open>forms_signature\<close>. The keys of the result are the representatives, so that two
  signatures are equal in Python exactly when they are equal here.\<close>

definition forms_signature :: "yaml \<Rightarrow> error + (yaml \<times> string) list" where
  "forms_signature frm =
     (case frm of
        YDict kvs \<Rightarrow>
          (case stripped_items kvs of
             Inl e \<Rightarrow> Inl e
           | Inr ps \<Rightarrow>
               (case py_sorted ps of
                  Inl e \<Rightarrow> Inl e
                | Inr sorted_ps \<Rightarrow> Inr (map (\<lambda>p. (py_norm (fst p), snd p)) sorted_ps)))
      | _ \<Rightarrow> Inl AttributeError)"

type_synonym signature = "string \<times> (yaml \<times> string) list"

text \<open>\<open>t.get("forms") or {}\<close>\<close>

definition forms_of :: "ydict \<Rightarrow> yaml" where
  "forms_of t = (case dget t ''forms'' of
                   None \<Rightarrow> YDict []
                 | Some v \<Rightarrow> if truthy v then v else YDict [])"

text \<open>\<open>sig\<close>: the stripped \<open>lemma_guess\<close> with the signature of the forms.\<close>

definition table_sig :: "ydict \<Rightarrow> error + signature" where
  "table_sig t =
     (case strip_or_empty (case dget t ''lemma_guess'' of None \<Rightarrow> YNull | Some v \<Rightarrow> v) of
        Inl e \<Rightarrow> Inl e
      | Inr lem \<Rightarrow>
          (case forms_signature (forms_of t) of
             Inl e \<Rightarrow> Inl e
           | Inr fs \<Rightarrow> Inr (lem, fs)))"

text \<open>The list \<open>sources\<close> of the normalization step: the list under \<open>sources\<close> if
  there is one, else the dictionary under \<open>source\<close> alone, else nothing.\<close>

definition sources_of :: "ydict \<Rightarrow> yaml list" where
  "sources_of t =
     (case dget t ''sources'' of
        Some (YList xs) \<Rightarrow> xs
      | _ \<Rightarrow> (case dget t ''source'' of Some (YDict s) \<Rightarrow> [YDict s] | _ \<Rightarrow> []))"

text \<open>The table after \<open>t.pop("source", None)\<close> and \<open>t["sources"] = sources\<close>.\<close>

definition normalized :: "ydict \<Rightarrow> ydict" where
  "normalized t = dset ''sources'' (YList (sources_of t)) (AList.delete (YStr ''source'') t)"

text \<open>\<open>(s.get("ppt"), s.get("slide"))\<close> as a member of the set \<open>seen\<close>: a missing key
  reads as \<open>None\<close>, and an unhashable component raises \<open>TypeError\<close>.\<close>

definition prov_key :: "ydict \<Rightarrow> error + (yaml \<times> yaml)" where
  "prov_key s =
     (let ppt = (case dget s ''ppt'' of None \<Rightarrow> YNull | Some v \<Rightarrow> v);
          slide = (case dget s ''slide'' of None \<Rightarrow> YNull | Some v \<Rightarrow> v)
      in if hashable ppt \<and> hashable slide then Inr (py_norm ppt, py_norm slide)
         else Inl TypeError)"

text \<open>The set comprehension that builds \<open>seen\<close> from \<open>existing_sources\<close>.\<close>

primrec seen_of :: "yaml list \<Rightarrow> error + (yaml \<times> yaml) list" where
  "seen_of [] = Inr []"
| "seen_of (s # ss) =
     (case s of
        YDict sd \<Rightarrow>
          (case prov_key sd of
             Inl e \<Rightarrow> Inl e
           | Inr k \<Rightarrow> (case seen_of ss of Inl e \<Rightarrow> Inl e | Inr ks \<Rightarrow> Inr (k # ks)))
      | _ \<Rightarrow> seen_of ss)"

text \<open>The loop \<open>for s in sources\<close> of the merge: \<open>seen\<close> and \<open>existing_sources\<close>
  are carried along, the latter is returned.\<close>

primrec merge_loop :: "yaml list \<Rightarrow> (yaml \<times> yaml) list \<Rightarrow> yaml list \<Rightarrow> error + yaml list" where
  "merge_loop [] seen existing_sources = Inr existing_sources"
| "merge_loop (s # ss) seen existing_sources =
     (case s of
        YDict sd \<Rightarrow>
          (case prov_key sd of
             Inl e \<Rightarrow> Inl e
           | Inr k \<Rightarrow>
               if k \<notin> set seen then merge_loop ss (k # seen) (existing_sources @ [s])
               else merge_loop ss seen existing_sources)
      | _ \<Rightarrow> merge_loop ss seen existing_sources)"

text \<open>
  The \<open>else\<close> branch: the sources of the duplicate are merged into the table already
  kept. \<open>existing.get("sources", [])\<close> is a list for every table that has gone through
  the normalization, which is every table in \<open>merged\<close>; for anything else but a missing
  key the model raises.
\<close>

definition merge_into :: "ydict \<Rightarrow> yaml list \<Rightarrow> error + ydict" where
  "merge_into existing srcs =
     (case (case dget existing ''sources'' of
              None \<Rightarrow> Inr []
            | Some (YList xs) \<Rightarrow> Inr xs
            | Some _ \<Rightarrow> Inl TypeError) of
        Inl e \<Rightarrow> Inl e
      | Inr existing_sources \<Rightarrow>
          (case seen_of existing_sources of
             Inl e \<Rightarrow> Inl e
           | Inr seen \<Rightarrow>
               (case merge_loop srcs seen existing_sources of
                  Inl e \<Rightarrow> Inl e
                | Inr all_sources \<Rightarrow> Inr (dset ''sources'' (YList all_sources) existing))))"

text \<open>The dictionary \<open>merged\<close>, in insertion order, and one iteration of the loop over
  \<open>tables\<close>.\<close>

type_synonym merged = "(signature \<times> ydict) list"

definition dedupe_step :: "yaml \<Rightarrow> merged \<Rightarrow> error + merged" where
  "dedupe_step t merged =
     (case t of
        YDict td \<Rightarrow>
          (case table_sig td of
             Inl e \<Rightarrow> Inl e
           | Inr sg \<Rightarrow>
               (case map_of merged sg of
                  None \<Rightarrow> Inr (merged @ [(sg, normalized td)])
                | Some existing \<Rightarrow>
                    (case merge_into existing (sources_of td) of
                       Inl e \<Rightarrow> Inl e
                     | Inr existing' \<Rightarrow> Inr (AList.update sg existing' merged))))
      | _ \<Rightarrow> Inl AttributeError)"

primrec dedupe_loop :: "yaml list \<Rightarrow> merged \<Rightarrow> error + merged" where
  "dedupe_loop [] merged = Inr merged"
| "dedupe_loop (t # ts) merged =
     (case dedupe_step t merged of Inl e \<Rightarrow> Inl e | Inr merged' \<Rightarrow> dedupe_loop ts merged')"

text \<open>The reduction of a table list: \<open>deduped_tables\<close> for \<open>tables\<close>.\<close>

definition dedupe_tables :: "yaml list \<Rightarrow> error + yaml list" where
  "dedupe_tables tables =
     (case dedupe_loop tables [] of
        Inl e \<Rightarrow> Inl e
      | Inr merged \<Rightarrow> Inr (map (\<lambda>m. YDict (snd m)) merged))"

text \<open>\<open>main\<close> of the deduplicator on the loaded document: the document it writes
  back, or the exception that ends the run before the write.\<close>

definition dedupe_main :: "yaml \<Rightarrow> error + ydict" where
  "dedupe_main data =
     (case data of
        YDict d \<Rightarrow>
          (case (case dget d ''tables'' of None \<Rightarrow> Some [] | Some v \<Rightarrow> iter_yaml v) of
             None \<Rightarrow> Inl TypeError
           | Some tables \<Rightarrow>
               (case dedupe_tables tables of
                  Inl e \<Rightarrow> Inl e
                | Inr deduped_tables \<Rightarrow> Inr (dset ''tables'' (YList deduped_tables) d)))
      | _ \<Rightarrow> Inl AttributeError)"

text \<open>The provenance pairs of the dictionaries in a list of sources.\<close>

definition prov_keys :: "yaml list \<Rightarrow> (yaml \<times> yaml) list" where
  "prov_keys srcs = concat (map (\<lambda>s. case s of
       YDict sd \<Rightarrow> (case prov_key sd of Inr k \<Rightarrow> [k] | Inl e \<Rightarrow> [])
     | _ \<Rightarrow> []) srcs)"

text \<open>Invariant of the loop of the deduplicator: the signatures in \<open>merged\<close> are
  distinct, each table is stored under its own signature, and each has gone through the
  normalization of its sources.\<close>

definition inv_merged :: "merged \<Rightarrow> bool" where
  "inv_merged m \<longleftrightarrow>
     distinct (map fst m) \<and> (\<forall>e \<in> set m. table_sig (snd e) = Inr (fst e) \<and> normalized (snd e) = snd e)"

text \<open>A source that may be appended: a dictionary whose provenance pair is not among
  the pairs \<open>seen\<close>.\<close>

definition fresh_dict :: "(yaml \<times> yaml) list \<Rightarrow> yaml \<Rightarrow> bool" where
  "fresh_dict seen s \<longleftrightarrow>
     (case s of YDict sd \<Rightarrow> (case prov_key sd of Inr k \<Rightarrow> k \<notin> set seen | Inl e \<Rightarrow> False)
      | _ \<Rightarrow> False)"
section \<open>Properties of the extractor\<close>

lemma dropWhile_hd: "dropWhile P xs \<noteq> [] \<Longrightarrow> \<not> P (hd (dropWhile P xs))"
  by (metis hd_dropWhile)

lemma rstrip_last: "rstrip s \<noteq> [] \<Longrightarrow> \<not> is_space (last (rstrip s))"
  unfolding rstrip_def by (metis hd_dropWhile last_rev rev_is_Nil_conv)

lemma rstrip_keep: "s \<noteq> [] \<Longrightarrow> \<not> is_space (last s) \<Longrightarrow> rstrip s = s"
  unfolding rstrip_def
  by (metis dropWhile.simps(2) hd_rev list.collapse rev_is_Nil_conv rev_rev_ident)

lemma lstrip_keep: "s \<noteq> [] \<Longrightarrow> \<not> is_space (hd s) \<Longrightarrow> lstrip s = s"
  unfolding lstrip_def by (cases s) auto

lemma rstrip_hd: "s \<noteq> [] \<Longrightarrow> \<not> is_space (hd s) \<Longrightarrow> rstrip s \<noteq> [] \<and> hd (rstrip s) = hd s"
proof -
  assume a: "s \<noteq> []" "\<not> is_space (hd s)"
  then obtain c cs where s: "s = c # cs" by (cases s) auto
  have "dropWhile is_space (rev cs @ [c]) = dropWhile is_space (rev cs) @ [c]"
    using a s by (simp add: dropWhile_append3)
  then show ?thesis using s by (simp add: rstrip_def)
qed

lemma trimmed_strip: "strip s \<noteq> [] \<Longrightarrow> trimmed (strip s)"
proof -
  assume a: "strip s \<noteq> []"
  then have l: "lstrip s \<noteq> []" by (auto simp: strip_def rstrip_def)
  then have h: "\<not> is_space (hd (lstrip s))" unfolding lstrip_def by (metis hd_dropWhile)
  from rstrip_hd[OF l h] rstrip_last[of "lstrip s"] h show ?thesis
    by (simp add: trimmed_def strip_def)
qed

lemma strip_trimmed: "trimmed s \<Longrightarrow> strip s = s"
  by (simp add: trimmed_def strip_def lstrip_keep rstrip_keep)

lemma strip_headed: "s \<noteq> [] \<Longrightarrow> \<not> is_space (hd s) \<Longrightarrow> trimmed (strip s)"
  using rstrip_hd[of s] trimmed_strip[of s] by (simp add: strip_def lstrip_keep)

lemma find_SomeD: "find P xs = Some x \<Longrightarrow> x \<in> set xs \<and> P x"
  by (induction xs) (auto split: if_splits)

lemma re_pronoun_pair_SomeD:
  assumes "re_pronoun_pair s = Some (p, g)"
  shows "p \<in> set RE_PRONOUNS" and "g \<noteq> []" and "\<not> is_space (hd g)"
proof -
  from assms obtain q where q: "find (startswith s) RE_PRONOUNS = Some q"
    by (auto simp: re_pronoun_pair_def split: option.splits)
  with assms have pg: "p = q" "g = dropWhile is_space (drop (length q) s)" "g \<noteq> []"
    by (auto simp: re_pronoun_pair_def Let_def split: if_splits)
  from q show "p \<in> set RE_PRONOUNS" using find_SomeD pg(1) by fastforce
  show "g \<noteq> []" by (rule pg(3))
  show "\<not> is_space (hd g)" using pg(2,3) by (metis hd_dropWhile)
qed

lemma re_pronoun_pair_form:
  "re_pronoun_pair s = Some (p, g) \<Longrightarrow> trimmed (strip g)"
  by (blast intro: strip_headed dest: re_pronoun_pair_SomeD)

lemma good_slots_Nil: "good_slots []"
  by (simp add: good_slots_def)

lemma set_update_subset: "set (AList.update k v al) \<subseteq> insert (k, v) (set al)"
  by (induction al) auto

lemma good_slots_update: "good_slots t \<Longrightarrow> trimmed v \<Longrightarrow> good_slots (AList.update k v t)"
  unfolding good_slots_def using set_update_subset[of k v t]
  by (auto simp: distinct_update)

lemma good_slots_put_sie: "good_slots t \<Longrightarrow> trimmed v \<Longrightarrow> good_slots (put_sie v t)"
  by (simp add: put_sie_def Let_def good_slots_update)

lemma good_state_flush: "good_state st \<Longrightarrow> good_state (flush st)"
  by (cases st) (auto simp: good_state_def flush_def good_slots_Nil)

lemma good_state_step: "good_state st \<Longrightarrow> good_state (step line st)"
proof (cases "re_pronoun_pair (strip line)")
  case None
  assume "good_state st"
  then show ?thesis using None by (simp add: step_def good_state_flush)
next
  case (Some pg)
  assume g: "good_state st"
  obtain p g2 where pg: "pg = (p, g2)" by (cases pg)
  have t: "trimmed (strip g2)" using Some pg re_pronoun_pair_form by blast
  obtain tables current where st: "st = (tables, current)" by (cases st)
  show ?thesis using g t
    by (simp add: step_def Some pg st Let_def good_state_def good_slots_update good_slots_put_sie)
qed

lemma good_state_scan: "good_state st \<Longrightarrow> good_state (scan lines st)"
  by (induction lines arbitrary: st) (simp_all add: good_state_step)

lemma good_state_init: "good_state ([], [])"
  by (simp add: good_state_def good_slots_Nil)

lemma uniq_tables_subset: "set (uniq_tables ts seen) \<subseteq> set ts"
  by (induction ts seen rule: uniq_tables.induct) auto

lemma extract_tables_good:
  assumes "t \<in> set (extract_tables_from_group lines)"
  shows "good_slots t \<and> 4 \<le> length t"
proof -
  have "good_state (flush (scan lines ([], [])))"
    by (simp add: good_state_flush good_state_scan good_state_init)
  moreover have "t \<in> set (fst (flush (scan lines ([], []))))"
    using assms uniq_tables_subset unfolding extract_tables_from_group_def by blast
  ultimately show ?thesis by (simp add: good_state_def)
qed


lemma fold_canonical_map:
  "map_of (fold (\<lambda>p out. case map_of table p of None \<Rightarrow> out | Some v \<Rightarrow> AList.update p v out) ps out) k
     = (if k \<in> set ps \<and> map_of table k \<noteq> None then map_of table k else map_of out k)"
  by (induction ps arbitrary: out) (auto simp: update_conv' split: option.splits)

lemma fold_canonical_distinct:
  "distinct (map fst out) \<Longrightarrow>
   distinct (map fst (fold (\<lambda>p out. case map_of table p of None \<Rightarrow> out | Some v \<Rightarrow> AList.update p v out) ps out))"
  by (induction ps arbitrary: out) (auto simp: distinct_update split: option.splits)

lemma fold_leftover_map:
  "map_of (fold (\<lambda>(k, v) out. if map_of out k = None then AList.update k v out else out) xs out) k
     = (case map_of out k of Some v \<Rightarrow> Some v | None \<Rightarrow> map_of xs k)"
proof (induction xs arbitrary: out)
  case Nil
  then show ?case by (simp split: option.splits)
next
  case (Cons a xs)
  obtain k' v' where a: "a = (k', v')" by (cases a)
  show ?case
  proof (cases "map_of out k' = None")
    case True
    then show ?thesis by (simp add: a Cons.IH update_conv' split: option.splits)
  next
    case False
    then show ?thesis by (auto simp add: a Cons.IH split: option.splits)
  qed
qed

lemma fold_leftover_distinct:
  "distinct (map fst out) \<Longrightarrow>
   distinct (map fst (fold (\<lambda>(k, v) out. if map_of out k = None then AList.update k v out else out) xs out))"
  by (induction xs arbitrary: out) (auto simp: distinct_update)

lemma ordered_forms_map: "map_of (ordered_forms t) = map_of t"
  by (rule ext) (simp add: ordered_forms_def Let_def fold_leftover_map fold_canonical_map split: option.splits)

lemma ordered_forms_distinct: "distinct (map fst (ordered_forms t))"
  by (simp add: ordered_forms_def Let_def fold_leftover_distinct fold_canonical_distinct)

lemma ordered_forms_set: "distinct (map fst t) \<Longrightarrow> set (ordered_forms t) = set t"
  using map_of_inject_set[OF ordered_forms_distinct, of t t] ordered_forms_map by blast

lemma ordered_forms_length: "distinct (map fst t) \<Longrightarrow> length (ordered_forms t) = length t"
proof -
  assume d: "distinct (map fst t)"
  have "distinct (ordered_forms t)" "distinct t"
    using ordered_forms_distinct[of t] d by (auto dest: distinct_map[THEN iffD1])
  then show ?thesis using ordered_forms_set[OF d] by (metis distinct_card)
qed

lemma ordered_forms_good: "good_slots t \<Longrightarrow> good_slots (ordered_forms t)"
  by (simp add: good_slots_def ordered_forms_distinct ordered_forms_set)

lemma tables_of_slide_forms:
  "tables_of_slide to_int ppt slide ts = Inr out \<Longrightarrow> map forms out = map ordered_forms ts"
proof (induction ts arbitrary: out)
  case Nil
  then show ?case by simp
next
  case (Cons t ts)
  from Cons.prems obtain n where n: "to_int slide = Some n"
    by (cases "to_int slide") simp_all
  from Cons.prems n obtain rest where rest: "tables_of_slide to_int ppt slide ts = Inr rest"
    by (cases "tables_of_slide to_int ppt slide ts") simp_all
  from Cons.prems n rest have "forms (hd out) = ordered_forms t" "tl out = rest" "out \<noteq> []"
    by auto
  then show ?case using Cons.IH[OF rest] by (cases out) simp_all
qed


lemma main_tables_forms:
  "main_tables to_int grouped = Inr out \<Longrightarrow> x \<in> set out \<Longrightarrow>
   \<exists>lines t. t \<in> set (extract_tables_from_group lines) \<and> forms x = ordered_forms t"
proof (induction grouped arbitrary: out)
  case Nil
  then show ?case by simp
next
  case (Cons g grouped)
  obtain ppt slide lines where g: "g = ((ppt, slide), lines)" by (cases g) auto
  show ?case
  proof (cases "length (pronoun_lines lines) < 4")
    case True
    with Cons.prems g have "main_tables to_int grouped = Inr out" by simp
    from Cons.IH[OF this Cons.prems(2)] show ?thesis .
  next
    case False
    let ?ex = "extract_tables_from_group (pronoun_lines lines)"
    from Cons.prems(1) g False obtain ts where
      ts: "tables_of_slide to_int ppt slide ?ex = Inr ts"
      by (cases "tables_of_slide to_int ppt slide ?ex") simp_all
    from Cons.prems(1) g False ts obtain rest where
      rest: "main_tables to_int grouped = Inr rest"
      by (cases "main_tables to_int grouped") simp_all
    from Cons.prems(1) g False ts rest have out: "out = ts @ rest" by simp
    from Cons.prems(2) out consider "x \<in> set ts" | "x \<in> set rest" by auto
    then show ?thesis
    proof cases
      case 1
      then have "forms x \<in> set (map forms ts)" by simp
      then have "forms x \<in> set (map ordered_forms ?ex)"
        by (simp only: tables_of_slide_forms[OF ts])
      then show ?thesis by auto
    next
      case 2
      from Cons.IH[OF rest 2] show ?thesis .
    qed
  qed
qed


lemma step_flushes_only_on_mismatch:
  "looks_like_pronoun_line line \<Longrightarrow> fst (step line (tables, current)) = tables"
  by (auto simp: looks_like_pronoun_line_def step_def Let_def split: option.splits)

lemma scan_keeps_tables:
  "\<forall>ln \<in> set lines. looks_like_pronoun_line ln \<Longrightarrow> fst (scan lines (tables, current)) = tables"
proof (induction lines arbitrary: current)
  case Nil
  then show ?case by simp
next
  case (Cons ln lines)
  obtain tables' current' where s: "step ln (tables, current) = (tables', current')"
    by (cases "step ln (tables, current)")
  with step_flushes_only_on_mismatch[of ln tables current] Cons.prems have "tables' = tables"
    by simp
  with Cons s show ?case by simp
qed

lemma scan_append: "scan (xs @ ys) st = scan ys (scan xs st)"
  by (induction xs arbitrary: st) simp_all

lemma uniq_tables_single: "uniq_tables [t] [] = [t]"
  by simp

lemma put_sie_refines:
  assumes "good_slots current"
  shows "put_sie form current = spec_put_sie form current"
proof (cases "map_of current ''er''")
  case None
  then show ?thesis by (simp add: put_sie_def spec_put_sie_def Let_def strip_def lstrip_def rstrip_def lower_def)
next
  case (Some e)
  then have "(''er'', e) \<in> set current" by (rule map_of_SomeD)
  then have "trimmed e" using assms by (force simp: good_slots_def)
  then have "strip e = e" "lower e \<noteq> []" by (simp_all add: strip_trimmed trimmed_def lower_def)
  then show ?thesis using Some by (simp add: put_sie_def spec_put_sie_def Let_def)
qed

text \<open>
  C5. Every table the extractor returns, from \<open>extract_tables_from_group\<close> on any
  line sequence and in the output list of \<open>main\<close> on any rows, has at least four slots
  with pairwise distinct pronoun keys, each holding a non-empty form.
\<close>

theorem extractor_min_four_slots:
  "(\<forall>t \<in> set (extract_tables_from_group lines).
      4 \<le> length t \<and> distinct (map fst t) \<and> (\<forall>v \<in> snd ` set t. v \<noteq> []))
   \<and> (\<forall>out. extract_main to_int rows = Inr out \<longrightarrow>
        (\<forall>x \<in> set out. 4 \<le> length (forms x) \<and> distinct (map fst (forms x))
            \<and> (\<forall>v \<in> snd ` set (forms x). v \<noteq> [])))"
proof -
  have a: "4 \<le> length t \<and> distinct (map fst t) \<and> (\<forall>v \<in> snd ` set t. v \<noteq> [])"
    if "t \<in> set (extract_tables_from_group ls)" for t ls
    using extract_tables_good[OF that] by (auto simp: good_slots_def trimmed_def)
  have b: "4 \<le> length (forms x) \<and> distinct (map fst (forms x)) \<and> (\<forall>v \<in> snd ` set (forms x). v \<noteq> [])"
    if o: "extract_main to_int rows = Inr out" and x: "x \<in> set out" for out x
  proof -
    from main_tables_forms[OF o[unfolded extract_main_def] x] obtain ls t where
      t: "t \<in> set (extract_tables_from_group ls)" and f: "forms x = ordered_forms t" by blast
    from extract_tables_good[OF t] have g: "good_slots t" "4 \<le> length t" by auto
    have g': "good_slots (forms x)" "length (forms x) = length t"
      using ordered_forms_good[OF g(1)] ordered_forms_length[of t] g(1)
      by (simp_all add: f good_slots_def)
    have "\<forall>v \<in> snd ` set (forms x). v \<noteq> []"
      using g'(1) unfolding good_slots_def trimmed_def by blast
    then show ?thesis using g g' by (simp add: good_slots_def)
  qed
  show ?thesis using a b by blast
qed

theorem extractor_min_four_slots_witness:
  "[(''ich'', ''gehe''), (''du'', ''gehst''), (''er'', ''geht''), (''wir'', ''gehen'')]
     \<in> set (extract_tables_from_group [''ich gehe'', ''du gehst'', ''er geht'', ''wir gehen''])
   \<and> extract_main (\<lambda>s. if s = ''3'' then Some 3 else None)
        [\<lparr>ppt_file = Some ''a.pptx'', slide_number = Some ''3'', norm_text = Some ''wir gehen''\<rparr>,
         \<lparr>ppt_file = Some ''a.pptx'', slide_number = Some ''3'', norm_text = Some ''ich gehe''\<rparr>,
         \<lparr>ppt_file = Some ''a.pptx'', slide_number = Some ''3'', norm_text = Some ''Verben''\<rparr>,
         \<lparr>ppt_file = Some ''a.pptx'', slide_number = Some ''3'', norm_text = Some ''du gehst''\<rparr>,
         \<lparr>ppt_file = Some ''a.pptx'', slide_number = Some ''3'', norm_text = Some ''er geht''\<rparr>]
      = Inr [\<lparr>table_id = ''a.pptx__slide3'', lemma_guess = ''gehen'',
               pattern_guess = ''stem_change'',
               forms = [(''ich'', ''gehe''), (''du'', ''gehst''), (''er'', ''geht''), (''wir'', ''gehen'')],
               source = (''a.pptx'', 3)\<rparr>]
   \<and> 4 \<le> length [(''ich'', ''gehe''), (''du'', ''gehst''), (''er'', ''geht''), (''wir'', ''gehen'')]"
proof -
  let ?t = "[(''ich'', ''gehe''), (''du'', ''gehst''), (''er'', ''geht''), (''wir'', ''gehen'')]"
  let ?lines = "[''ich gehe'', ''du gehst'', ''er geht'', ''wir gehen'']"
  have m: "?t \<in> set (extract_tables_from_group ?lines)"
    by code_simp
  have e: "extract_main (\<lambda>s. if s = ''3'' then Some 3 else None)
        [\<lparr>ppt_file = Some ''a.pptx'', slide_number = Some ''3'', norm_text = Some ''wir gehen''\<rparr>,
         \<lparr>ppt_file = Some ''a.pptx'', slide_number = Some ''3'', norm_text = Some ''ich gehe''\<rparr>,
         \<lparr>ppt_file = Some ''a.pptx'', slide_number = Some ''3'', norm_text = Some ''Verben''\<rparr>,
         \<lparr>ppt_file = Some ''a.pptx'', slide_number = Some ''3'', norm_text = Some ''du gehst''\<rparr>,
         \<lparr>ppt_file = Some ''a.pptx'', slide_number = Some ''3'', norm_text = Some ''er geht''\<rparr>]
      = Inr [\<lparr>table_id = ''a.pptx__slide3'', lemma_guess = ''gehen'',
               pattern_guess = ''stem_change'',
               forms = ?t, source = (''a.pptx'', 3)\<rparr>]"
    by code_simp
  from extractor_min_four_slots[of ?lines, THEN conjunct1, rule_format, OF m]
  have "4 \<le> length ?t" by blast
  moreover from extractor_min_four_slots[THEN conjunct2, rule_format, OF e]
  have "4 \<le> length ?t" by simp
  ultimately show ?thesis using m e by blast
qed

text \<open>
  C2, as amended. A candidate line with a pronoun other than \<open>sie\<close> writes its form into
  the slot of that pronoun and nothing else: the list of tables is unchanged (no flush), a
  slot that was filled is overwritten in place and the keys of the slot map stay as they
  were.
\<close>

theorem nonambiguous_pronoun_overwrites:
  assumes "re_pronoun_pair (strip line) = Some (p_raw, g)"
    and "normalize_pronoun p_raw \<noteq> ''sie''"
  shows "step line (tables, current)
           = (tables, AList.update (normalize_pronoun p_raw) (strip g) current)
         \<and> map_of (snd (step line (tables, current))) (normalize_pronoun p_raw) = Some (strip g)
         \<and> (map_of current (normalize_pronoun p_raw) \<noteq> None \<longrightarrow>
               map fst (snd (step line (tables, current))) = map fst current)"
proof -
  have s: "step line (tables, current)
           = (tables, AList.update (normalize_pronoun p_raw) (strip g) current)"
    using assms by (simp add: step_def Let_def)
  have k: "map fst (AList.update k v al) = map fst al" if "map_of al k \<noteq> None" for k v and al :: slots
    using that by (induction al) auto
  show ?thesis using s k by (simp add: update_conv')
qed

theorem nonambiguous_pronoun_overwrites_witness:
  "re_pronoun_pair (strip ''ich laufe'') = Some (''ich'', ''laufe'')
   \<and> normalize_pronoun ''ich'' \<noteq> ''sie''
   \<and> step ''ich laufe'' ([], [(''ich'', ''gehe''), (''du'', ''gehst'')])
       = ([], [(''ich'', ''laufe''), (''du'', ''gehst'')])"
proof -
  have a: "re_pronoun_pair (strip ''ich laufe'') = Some (''ich'', ''laufe'')" by code_simp
  have b: "normalize_pronoun ''ich'' \<noteq> ''sie''" by code_simp
  have c: "AList.update (normalize_pronoun ''ich'') (strip ''laufe'') [(''ich'', ''gehe''), (''du'', ''gehst'')]
      = [(''ich'', ''laufe''), (''du'', ''gehst'')]" by code_simp
  from nonambiguous_pronoun_overwrites[OF a b, of "[]" "[(''ich'', ''gehe''), (''du'', ''gehst'')]"]
  show ?thesis using a b c by simp
qed

text \<open>
  C2 as stated fails. On a map with the four slots \<open>ich\<close>, \<open>du\<close>, \<open>er\<close>, \<open>wir\<close> the
  line \<open>ich laufe\<close> meets a filled slot; a flush would retain the map as a table, but the
  step leaves the tables empty and replaces \<open>gehe\<close> by \<open>laufe\<close> in place, and the whole
  group yields the overwritten map as its only table.
\<close>

theorem refill_flush_counterexample:
  "re_pronoun_pair (strip ''ich laufe'') = Some (''ich'', ''laufe'')
   \<and> map_of [(''ich'', ''gehe''), (''du'', ''gehst''), (''er'', ''geht''), (''wir'', ''gehen'')] ''ich''
        = Some ''gehe''
   \<and> fst (flush ([], [(''ich'', ''gehe''), (''du'', ''gehst''), (''er'', ''geht''), (''wir'', ''gehen'')]))
        = [[(''ich'', ''gehe''), (''du'', ''gehst''), (''er'', ''geht''), (''wir'', ''gehen'')]]
   \<and> step ''ich laufe'' ([], [(''ich'', ''gehe''), (''du'', ''gehst''), (''er'', ''geht''), (''wir'', ''gehen'')])
        = ([], [(''ich'', ''laufe''), (''du'', ''gehst''), (''er'', ''geht''), (''wir'', ''gehen'')])
   \<and> fst (step ''ich laufe'' ([], [(''ich'', ''gehe''), (''du'', ''gehst''), (''er'', ''geht''), (''wir'', ''gehen'')]))
        \<noteq> fst (flush ([], [(''ich'', ''gehe''), (''du'', ''gehst''), (''er'', ''geht''), (''wir'', ''gehen'')]))
   \<and> extract_tables_from_group [''ich gehe'', ''du gehst'', ''er geht'', ''wir gehen'', ''ich laufe'']
        = [[(''ich'', ''laufe''), (''du'', ''gehst''), (''er'', ''geht''), (''wir'', ''gehen'')]]"
  by code_simp

lemma step_parse_line:
  "step line (tables, current) =
     (case parse_line line of
        None \<Rightarrow> flush (tables, current)
      | Some (p, f) \<Rightarrow> if p \<noteq> ''sie'' then (tables, AList.update p f current)
                       else (tables, put_sie f current))"
  by (simp add: step_def parse_line_def Let_def split: option.splits)

lemma normalized_pronouns:
  assumes "parse_line line = Some (p, f)"
  shows "p \<in> set RE_PRONOUNS"
proof -
  from assms obtain p_raw g where r: "re_pronoun_pair (strip line) = Some (p_raw, g)"
    and p: "p = normalize_pronoun p_raw"
    by (auto simp: parse_line_def split: option.splits)
  have "list_all (\<lambda>q. normalize_pronoun q = q) RE_PRONOUNS" by code_simp
  then have "\<forall>q \<in> set RE_PRONOUNS. normalize_pronoun q = q" by (simp only: list_all_iff)
  with re_pronoun_pair_SomeD(1)[OF r] p show ?thesis by simp
qed

lemma slot_names_not_pronouns: "''sie_sg'' \<notin> set RE_PRONOUNS" "''sie_pl'' \<notin> set RE_PRONOUNS"
  by code_simp+

lemma put_sie_spricht:
  "map_of c ''sie_sg'' = None \<Longrightarrow> put_sie ''spricht'' c = AList.update ''sie_sg'' ''spricht'' c"
proof -
  have "endswith (lower ''spricht'') ''t''" by code_simp
  then show "map_of c ''sie_sg'' = None \<Longrightarrow> ?thesis" by (simp add: put_sie_def Let_def)
qed

lemma put_sie_sprechen:
  assumes "case map_of c ''er'' of None \<Rightarrow> True | Some e \<Rightarrow> e = ''spricht''"
  shows "put_sie ''sprechen'' c = AList.update ''sie_pl'' ''sprechen'' c"
proof -
  have a: "\<not> endswith (lower ''sprechen'') ''t''" by code_simp
  have b: "lower ''sprechen'' \<noteq> lower (strip ''spricht'')" by code_simp
  have c: "lower (strip []) = []" by code_simp
  show ?thesis
  proof (cases "map_of c ''er''")
    case None
    then show ?thesis using a c by (simp add: put_sie_def Let_def)
  next
    case (Some e)
    with assms have "e = ''spricht''" by simp
    then show ?thesis using Some a b by (simp add: put_sie_def Let_def)
  qed
qed

lemma sprechen_state_step:
  assumes p: "parse_line ln = Some (p, f)"
    and s: "sprechen_state c (forms_for ''sie'' (ln # lines))"
    and e: "\<forall>x \<in> set (forms_for ''er'' (ln # lines)). x = ''spricht''"
  shows "sprechen_state (snd (step ln (tables, c))) (forms_for ''sie'' lines)"
proof (cases "p = ''sie''")
  case False
  have k: "p \<noteq> ''sie_sg''" "p \<noteq> ''sie_pl''"
    using normalized_pronouns[OF p] slot_names_not_pronouns by blast+
  have r: "forms_for ''sie'' (ln # lines) = forms_for ''sie'' lines"
    using p False by (simp add: forms_for_def)
  have st: "snd (step ln (tables, c)) = AList.update p f c"
    using p False by (simp add: step_parse_line)
  have er: "case map_of (AList.update p f c) ''er'' of None \<Rightarrow> True | Some e \<Rightarrow> e = ''spricht''"
  proof (cases "p = ''er''")
    case True
    then have "f \<in> set (forms_for ''er'' (ln # lines))" using p by (simp add: forms_for_def)
    with e have "f = ''spricht''" by blast
    then show ?thesis using True by (simp add: update_conv')
  next
    case False
    then show ?thesis using s by (simp add: update_conv' sprechen_state_def)
  qed
  show ?thesis using s er k unfolding st r sprechen_state_def by (simp add: update_conv')
next
  case True
  have r: "forms_for ''sie'' (ln # lines) = f # forms_for ''sie'' lines"
    using p True by (simp add: forms_for_def)
  have st: "snd (step ln (tables, c)) = put_sie f c"
    using p True by (simp add: step_parse_line)
  have er: "case map_of c ''er'' of None \<Rightarrow> True | Some e \<Rightarrow> e = ''spricht''"
    using s by (simp add: sprechen_state_def)
  from s r consider
      (a) "f = ''spricht''" "forms_for ''sie'' lines = [''sprechen'']"
          "map_of c ''sie_sg'' = None" "map_of c ''sie_pl'' = None"
    | (b) "f = ''sprechen''" "forms_for ''sie'' lines = [''spricht'']"
          "map_of c ''sie_sg'' = None" "map_of c ''sie_pl'' = None"
    | (c) "f = ''sprechen''" "forms_for ''sie'' lines = []"
          "map_of c ''sie_sg'' = Some ''spricht''" "map_of c ''sie_pl'' = None"
    | (d) "f = ''spricht''" "forms_for ''sie'' lines = []"
          "map_of c ''sie_sg'' = None" "map_of c ''sie_pl'' = Some ''sprechen''"
    unfolding sprechen_state_def by auto
  then show ?thesis
  proof cases
    case a
    then show ?thesis using er unfolding st sprechen_state_def
      by (simp add: put_sie_spricht update_conv')
  next
    case b
    then show ?thesis using er unfolding st sprechen_state_def
      by (simp add: put_sie_sprechen update_conv')
  next
    case c
    then show ?thesis using er unfolding st sprechen_state_def
      by (simp add: put_sie_sprechen update_conv')
  next
    case d
    then show ?thesis using er unfolding st sprechen_state_def
      by (simp add: put_sie_spricht update_conv')
  qed
qed

lemma sprechen_state_scan:
  assumes "\<forall>ln \<in> set lines. parse_line ln \<noteq> None"
    and "sprechen_state c (forms_for ''sie'' lines)"
    and "\<forall>x \<in> set (forms_for ''er'' lines). x = ''spricht''"
  shows "sprechen_state (snd (scan lines (tables, c))) []"
  using assms
proof (induction lines arbitrary: c tables)
  case Nil
  then show ?case by (simp add: forms_for_def)
next
  case (Cons ln lines)
  from Cons.prems(1) obtain p f where p: "parse_line ln = Some (p, f)" by auto
  obtain tables' c' where st: "step ln (tables, c) = (tables', c')" by (cases "step ln (tables, c)")
  from sprechen_state_step[OF p Cons.prems(2,3), of tables] st
  have s: "sprechen_state c' (forms_for ''sie'' lines)" by simp
  have e: "\<forall>x \<in> set (forms_for ''er'' lines). x = ''spricht''"
    using Cons.prems(3) by (simp add: forms_for_def)
  from Cons.IH[OF _ s e, of tables'] Cons.prems(1) st show ?case by simp
qed

lemma sie_examples:
  "list_all (\<lambda>ls. map_of (snd (scan ls ([], []))) ''sie_sg'' = Some ''spricht''
                 \<and> map_of (snd (scan ls ([], []))) ''sie_pl'' = Some ''sprechen'')
     [[''er spricht'', ''sie spricht'', ''sie sprechen''],
      [''er spricht'', ''sie sprechen'', ''sie spricht''],
      [''sie spricht'', ''er spricht'', ''sie sprechen''],
      [''sie sprechen'', ''er spricht'', ''sie spricht''],
      [''sie spricht'', ''sie sprechen'', ''er spricht''],
      [''sie sprechen'', ''sie spricht'', ''er spricht'']]"
proof -
  have 1: "scan [''er spricht'', ''sie spricht'', ''sie sprechen''] ([], [])
      = ([], [(''er'', ''spricht''), (''sie_sg'', ''spricht''), (''sie_pl'', ''sprechen'')])"
    by code_simp
  have 2: "scan [''er spricht'', ''sie sprechen'', ''sie spricht''] ([], [])
      = ([], [(''er'', ''spricht''), (''sie_pl'', ''sprechen''), (''sie_sg'', ''spricht'')])"
    by code_simp
  have 3: "scan [''sie spricht'', ''er spricht'', ''sie sprechen''] ([], [])
      = ([], [(''sie_sg'', ''spricht''), (''er'', ''spricht''), (''sie_pl'', ''sprechen'')])"
    by code_simp
  have 4: "scan [''sie sprechen'', ''er spricht'', ''sie spricht''] ([], [])
      = ([], [(''sie_pl'', ''sprechen''), (''er'', ''spricht''), (''sie_sg'', ''spricht'')])"
    by code_simp
  have 5: "scan [''sie spricht'', ''sie sprechen'', ''er spricht''] ([], [])
      = ([], [(''sie_sg'', ''spricht''), (''sie_pl'', ''sprechen''), (''er'', ''spricht'')])"
    by code_simp
  have 6: "scan [''sie sprechen'', ''sie spricht'', ''er spricht''] ([], [])
      = ([], [(''sie_pl'', ''sprechen''), (''sie_sg'', ''spricht''), (''er'', ''spricht'')])"
    by code_simp
  show ?thesis unfolding list_all_Cons_iff list_all_Nil_iff 1 2 3 4 5 6 by simp
qed

text \<open>
  C4, as amended. On a line whose pronoun is \<open>sie\<close>, in whatever state the scan of the
  preceding lines has reached: if \<open>sie_sg\<close> is unfilled and either the lowercased form
  equals the lowercased stored \<open>er\<close> form or the lowercased form ends in \<open>t\<close>, the form
  goes to \<open>sie_sg\<close>; else it goes to \<open>sie_pl\<close>, overwriting what is there. The three
  lines \<open>er spricht\<close>, \<open>sie spricht\<close>, \<open>sie sprechen\<close> give \<open>sie_sg = spricht\<close> and
  \<open>sie_pl = sprechen\<close> in each of their six orders; and so does every group of
  candidate lines whose \<open>sie\<close> lines are these two, in either order, and whose \<open>er\<close>
  lines all read \<open>er spricht\<close>, whatever the lines for the other pronouns are and
  wherever they stand.
\<close>

theorem sie_rule:
  assumes "re_pronoun_pair (strip line) = Some (''sie'', g)"
  shows "step line (scan pre ([], []))
           = (fst (scan pre ([], [])), spec_put_sie (strip g) (snd (scan pre ([], []))))
   \<and> list_all (\<lambda>ls. map_of (snd (scan ls ([], []))) ''sie_sg'' = Some ''spricht''
                 \<and> map_of (snd (scan ls ([], []))) ''sie_pl'' = Some ''sprechen'')
     [[''er spricht'', ''sie spricht'', ''sie sprechen''],
      [''er spricht'', ''sie sprechen'', ''sie spricht''],
      [''sie spricht'', ''er spricht'', ''sie sprechen''],
      [''sie sprechen'', ''er spricht'', ''sie spricht''],
      [''sie spricht'', ''sie sprechen'', ''er spricht''],
      [''sie sprechen'', ''sie spricht'', ''er spricht'']]
   \<and> ((\<forall>ln \<in> set lines. parse_line ln \<noteq> None)
        \<and> (forms_for ''sie'' lines = [''spricht'', ''sprechen'']
             \<or> forms_for ''sie'' lines = [''sprechen'', ''spricht''])
        \<and> (\<forall>f \<in> set (forms_for ''er'' lines). f = ''spricht'') \<longrightarrow>
       map_of (snd (scan lines ([], []))) ''sie_sg'' = Some ''spricht''
       \<and> map_of (snd (scan lines ([], []))) ''sie_pl'' = Some ''sprechen'')"
proof -
  have general: "map_of (snd (scan lines ([], []))) ''sie_sg'' = Some ''spricht''
       \<and> map_of (snd (scan lines ([], []))) ''sie_pl'' = Some ''sprechen''"
    if h: "\<forall>ln \<in> set lines. parse_line ln \<noteq> None"
      "forms_for ''sie'' lines = [''spricht'', ''sprechen'']
         \<or> forms_for ''sie'' lines = [''sprechen'', ''spricht'']"
      "\<forall>f \<in> set (forms_for ''er'' lines). f = ''spricht''"
  proof -
    have "sprechen_state [] (forms_for ''sie'' lines)"
      using h(2) by (auto simp: sprechen_state_def)
    from sprechen_state_scan[OF h(1) this h(3), of "[]"]
    show ?thesis by (simp add: sprechen_state_def)
  qed
  obtain tables current where st: "scan pre ([], []) = (tables, current)"
    by (cases "scan pre ([], [])")
  have "good_state (scan pre ([], []))" by (simp add: good_state_scan good_state_init)
  then have g: "good_slots current" by (simp add: st good_state_def)
  have n: "normalize_pronoun ''sie'' = ''sie''" by code_simp
  have "step line (tables, current) = (tables, put_sie (strip g) current)"
    using assms n by (simp add: step_def Let_def)
  then have "step line (scan pre ([], []))
           = (fst (scan pre ([], [])), spec_put_sie (strip g) (snd (scan pre ([], []))))"
    using put_sie_refines[OF g] st by simp
  then show ?thesis using sie_examples general by blast
qed

theorem sie_rule_witness:
  "re_pronoun_pair (strip ''sie sprechen'') = Some (''sie'', ''sprechen'')
   \<and> step ''sie sprechen'' (scan [''er spricht'', ''sie spricht''] ([], []))
       = ([], [(''er'', ''spricht''), (''sie_sg'', ''spricht''), (''sie_pl'', ''sprechen'')])
   \<and> list_all (\<lambda>ln. parse_line ln \<noteq> None)
        [''ich spreche'', ''sie sprechen'', ''du sprichst'', ''er spricht'', ''sie spricht'', ''wir sprechen'']
   \<and> forms_for ''sie''
        [''ich spreche'', ''sie sprechen'', ''du sprichst'', ''er spricht'', ''sie spricht'', ''wir sprechen'']
       = [''sprechen'', ''spricht'']
   \<and> forms_for ''er''
        [''ich spreche'', ''sie sprechen'', ''du sprichst'', ''er spricht'', ''sie spricht'', ''wir sprechen'']
       = [''spricht'']
   \<and> map_of (snd (scan
        [''ich spreche'', ''sie sprechen'', ''du sprichst'', ''er spricht'', ''sie spricht'', ''wir sprechen'']
        ([], []))) ''sie_sg'' = Some ''spricht''
   \<and> map_of (snd (scan
        [''ich spreche'', ''sie sprechen'', ''du sprichst'', ''er spricht'', ''sie spricht'', ''wir sprechen'']
        ([], []))) ''sie_pl'' = Some ''sprechen''"
proof -
  let ?lines = "[''ich spreche'', ''sie sprechen'', ''du sprichst'', ''er spricht'', ''sie spricht'',
      ''wir sprechen'']"
  have a: "re_pronoun_pair (strip ''sie sprechen'') = Some (''sie'', ''sprechen'')" by code_simp
  have b: "(fst (scan [''er spricht'', ''sie spricht''] ([], [])),
            spec_put_sie (strip ''sprechen'') (snd (scan [''er spricht'', ''sie spricht''] ([], []))))
       = ([], [(''er'', ''spricht''), (''sie_sg'', ''spricht''), (''sie_pl'', ''sprechen'')])"
    by code_simp
  have c: "list_all (\<lambda>ln. parse_line ln \<noteq> None) ?lines" by code_simp
  then have c': "\<forall>ln \<in> set ?lines. parse_line ln \<noteq> None" by (simp only: list_all_iff)
  have d: "forms_for ''sie'' ?lines = [''sprechen'', ''spricht'']" by code_simp
  have e: "forms_for ''er'' ?lines = [''spricht'']" by code_simp
  then have e': "\<forall>f \<in> set (forms_for ''er'' ?lines). f = ''spricht''" by simp
  note t = sie_rule[OF a, of "[''er spricht'', ''sie spricht'']" ?lines]
  from t[THEN conjunct1] b
  have s: "step ''sie sprechen'' (scan [''er spricht'', ''sie spricht''] ([], []))
       = ([], [(''er'', ''spricht''), (''sie_sg'', ''spricht''), (''sie_pl'', ''sprechen'')])"
    by simp
  from t[THEN conjunct2, THEN conjunct2, THEN mp, OF conjI[OF c' conjI[OF disjI2[OF d] e']]]
  show ?thesis using a s c d e by blast
qed

text \<open>
  C4 as stated fails where the stored \<open>er\<close> form has a capital letter. After \<open>er Kann\<close>
  the line \<open>sie kann\<close> is stored in \<open>sie_sg\<close>, because the source lowercases the stored
  form as well; the rule as stated compares \<open>kann\<close> with \<open>Kann\<close>, finds no final
  \<open>t\<close>, and would store it in \<open>sie_pl\<close>.
\<close>

theorem sie_rule_counterexample:
  "scan [''er Kann'', ''sie kann''] ([], []) = ([], [(''er'', ''Kann''), (''sie_sg'', ''kann'')])
   \<and> step ''sie kann'' ([], [(''er'', ''Kann'')]) = ([], [(''er'', ''Kann''), (''sie_sg'', ''kann'')])
   \<and> claimed_put_sie ''kann'' [(''er'', ''Kann'')] = [(''er'', ''Kann''), (''sie_pl'', ''kann'')]
   \<and> put_sie ''kann'' [(''er'', ''Kann'')] \<noteq> claimed_put_sie ''kann'' [(''er'', ''Kann'')]
   \<and> lower ''kann'' \<noteq> ''Kann'' \<and> \<not> endswith (lower ''kann'') ''t''"
  by code_simp

lemma filtered_scan_facts:
  "(\<forall>ln \<in> set (pronoun_lines lines). looks_like_pronoun_line ln)
   \<and> (length (pronoun_lines lines) < 4 \<longrightarrow>
        main_tables to_int (((ppt, slide), lines) # grouped) = main_tables to_int grouped)
   \<and> fst (scan (pronoun_lines lines) (tables, current)) = tables
   \<and> extract_tables_from_group (pronoun_lines lines)
       = (if 4 \<le> length (snd (scan (pronoun_lines lines) ([], [])))
          then [snd (scan (pronoun_lines lines) ([], []))] else [])
   \<and> ((\<forall>ln \<in> set junk. \<not> looks_like_pronoun_line ln) \<longrightarrow>
        pronoun_lines (run1 @ junk @ run2) = pronoun_lines run1 @ pronoun_lines run2
        \<and> scan (pronoun_lines (run1 @ junk @ run2)) (tables, current)
            = scan (pronoun_lines run2) (scan (pronoun_lines run1) (tables, current)))"
proof -
  have a: "\<forall>ln \<in> set (pronoun_lines lines). looks_like_pronoun_line ln"
    by (simp add: pronoun_lines_def)
  have b: "length (pronoun_lines lines) < 4 \<longrightarrow>
        main_tables to_int (((ppt, slide), lines) # grouped) = main_tables to_int grouped"
    by simp
  have c: "fst (scan (pronoun_lines lines) (ts, cur)) = ts" for ts cur
    using scan_keeps_tables[OF a] .
  obtain cur' where s: "scan (pronoun_lines lines) ([], []) = ([], cur')"
    using c[of "[]" "[]"] by (cases "scan (pronoun_lines lines) ([], [])") simp
  have d: "extract_tables_from_group (pronoun_lines lines)
       = (if 4 \<le> length (snd (scan (pronoun_lines lines) ([], [])))
          then [snd (scan (pronoun_lines lines) ([], []))] else [])"
    by (simp add: extract_tables_from_group_def s flush_def)
  have e: "pronoun_lines (run1 @ junk @ run2) = pronoun_lines run1 @ pronoun_lines run2"
    if "\<forall>ln \<in> set junk. \<not> looks_like_pronoun_line ln"
    using that by (simp add: pronoun_lines_def)
  show ?thesis using a b c d e by (simp add: scan_append)
qed

lemma main_tables_single:
  "main_tables to_int [((ppt, slide), lines)]
     = (if length (pronoun_lines lines) < 4 then Inr []
        else tables_of_slide to_int ppt slide (extract_tables_from_group (pronoun_lines lines)))"
  by (cases "tables_of_slide to_int ppt slide (extract_tables_from_group (pronoun_lines lines))")
    simp_all

text \<open>
  C10. For each slide \<open>main\<close> keeps the lines that match the pronoun pattern, skips the
  slide when there are fewer than four of them, and otherwise hands exactly these lines to
  \<open>extract_tables_from_group\<close>, whose tables it turns into the tables of the output. On
  such input the loop never flushes: the table list stays as it was, the result is the one
  accumulated slot map (kept when it has four slots), and two runs of pronoun lines
  separated by lines that do not match are scanned as one run, the second continuing in the
  state the first one left, so that \<open>main\<close> gives for the slide what it gives without
  the separating lines: one table built from the single slot map.
\<close>

theorem filtered_lines_never_flush:
  "(\<forall>ln \<in> set (pronoun_lines lines). looks_like_pronoun_line ln)
   \<and> main_tables to_int (((ppt, slide), lines) # grouped)
       = (if length (pronoun_lines lines) < 4 then main_tables to_int grouped
          else case tables_of_slide to_int ppt slide
                      (extract_tables_from_group (pronoun_lines lines)) of
                 Inl e \<Rightarrow> Inl e
               | Inr ts \<Rightarrow>
                   (case main_tables to_int grouped of
                      Inl e \<Rightarrow> Inl e
                    | Inr rest \<Rightarrow> Inr (ts @ rest)))
   \<and> (length (pronoun_lines lines) < 4 \<longrightarrow>
        main_tables to_int (((ppt, slide), lines) # grouped) = main_tables to_int grouped)
   \<and> fst (scan (pronoun_lines lines) (tables, current)) = tables
   \<and> extract_tables_from_group (pronoun_lines lines)
       = (if 4 \<le> length (snd (scan (pronoun_lines lines) ([], [])))
          then [snd (scan (pronoun_lines lines) ([], []))] else [])
   \<and> ((\<forall>ln \<in> set junk. \<not> looks_like_pronoun_line ln) \<longrightarrow>
        pronoun_lines (run1 @ junk @ run2) = pronoun_lines run1 @ pronoun_lines run2
        \<and> scan (pronoun_lines (run1 @ junk @ run2)) (tables, current)
            = scan (pronoun_lines run2) (scan (pronoun_lines run1) (tables, current))
        \<and> main_tables to_int (((ppt, slide), run1 @ junk @ run2) # grouped)
            = main_tables to_int (((ppt, slide), run1 @ run2) # grouped))
   \<and> main_tables to_int [((ppt, slide), lines)]
       = (if length (pronoun_lines lines) < 4 then Inr []
          else tables_of_slide to_int ppt slide
                 (if 4 \<le> length (snd (scan (pronoun_lines lines) ([], [])))
                  then [snd (scan (pronoun_lines lines) ([], []))] else []))
   \<and> (\<not> length (pronoun_lines lines) < 4
        \<and> 4 \<le> length (snd (scan (pronoun_lines lines) ([], [])))
        \<and> to_int slide = Some n \<longrightarrow>
        main_tables to_int [((ppt, slide), lines)]
          = Inr [\<lparr>table_id = ppt @ ''__slide'' @ slide,
                   lemma_guess = guess_lemma (snd (scan (pronoun_lines lines) ([], []))),
                   pattern_guess = detect_pattern (snd (scan (pronoun_lines lines) ([], []))),
                   forms = ordered_forms (snd (scan (pronoun_lines lines) ([], []))),
                   source = (ppt, n)\<rparr>])
   \<and> extract_main to_int rows = main_tables to_int (group_by_ppt_slide rows)"
proof -
  note f = filtered_scan_facts[of lines to_int ppt slide grouped tables current junk run1 run2]
  have c1: "\<forall>ln \<in> set (pronoun_lines lines). looks_like_pronoun_line ln"
    using f by blast
  have c2: "main_tables to_int (((ppt, slide), lines) # grouped)
       = (if length (pronoun_lines lines) < 4 then main_tables to_int grouped
          else case tables_of_slide to_int ppt slide
                      (extract_tables_from_group (pronoun_lines lines)) of
                 Inl e \<Rightarrow> Inl e
               | Inr ts \<Rightarrow>
                   (case main_tables to_int grouped of
                      Inl e \<Rightarrow> Inl e
                    | Inr rest \<Rightarrow> Inr (ts @ rest)))"
    by simp
  have c3: "length (pronoun_lines lines) < 4 \<longrightarrow>
        main_tables to_int (((ppt, slide), lines) # grouped) = main_tables to_int grouped"
    by simp
  have c4: "fst (scan (pronoun_lines lines) (tables, current)) = tables"
    using f by blast
  have c5: "extract_tables_from_group (pronoun_lines lines)
       = (if 4 \<le> length (snd (scan (pronoun_lines lines) ([], [])))
          then [snd (scan (pronoun_lines lines) ([], []))] else [])"
    using f by blast
  have c6: "pronoun_lines (run1 @ junk @ run2) = pronoun_lines run1 @ pronoun_lines run2
        \<and> scan (pronoun_lines (run1 @ junk @ run2)) (tables, current)
            = scan (pronoun_lines run2) (scan (pronoun_lines run1) (tables, current))
        \<and> main_tables to_int (((ppt, slide), run1 @ junk @ run2) # grouped)
            = main_tables to_int (((ppt, slide), run1 @ run2) # grouped)"
    if j: "\<forall>ln \<in> set junk. \<not> looks_like_pronoun_line ln"
  proof -
    from f j have p: "pronoun_lines (run1 @ junk @ run2) = pronoun_lines run1 @ pronoun_lines run2"
      and s: "scan (pronoun_lines (run1 @ junk @ run2)) (tables, current)
            = scan (pronoun_lines run2) (scan (pronoun_lines run1) (tables, current))"
      by blast+
    have "pronoun_lines (run1 @ run2) = pronoun_lines run1 @ pronoun_lines run2"
      by (simp add: pronoun_lines_def)
    with p have "pronoun_lines (run1 @ junk @ run2) = pronoun_lines (run1 @ run2)" by simp
    then have "main_tables to_int (((ppt, slide), run1 @ junk @ run2) # grouped)
            = main_tables to_int (((ppt, slide), run1 @ run2) # grouped)"
      by simp
    with p s show ?thesis by blast
  qed
  have c7: "main_tables to_int [((ppt, slide), lines)]
       = (if length (pronoun_lines lines) < 4 then Inr []
          else tables_of_slide to_int ppt slide
                 (if 4 \<le> length (snd (scan (pronoun_lines lines) ([], [])))
                  then [snd (scan (pronoun_lines lines) ([], []))] else []))"
    unfolding main_tables_single c5 ..
  have c8: "main_tables to_int [((ppt, slide), lines)]
          = Inr [\<lparr>table_id = ppt @ ''__slide'' @ slide,
                   lemma_guess = guess_lemma (snd (scan (pronoun_lines lines) ([], []))),
                   pattern_guess = detect_pattern (snd (scan (pronoun_lines lines) ([], []))),
                   forms = ordered_forms (snd (scan (pronoun_lines lines) ([], []))),
                   source = (ppt, n)\<rparr>]"
    if "\<not> length (pronoun_lines lines) < 4"
      "4 \<le> length (snd (scan (pronoun_lines lines) ([], [])))" "to_int slide = Some n"
    unfolding c7 using that by simp
  have c9: "extract_main to_int rows = main_tables to_int (group_by_ppt_slide rows)"
    by (simp add: extract_main_def)
  show ?thesis using c1 c2 c3 c4 c5 c6 c7 c8 c9 by blast
qed

theorem filtered_lines_never_flush_witness:
  "length (pronoun_lines [''ich gehe'', ''du gehst'', ''Konjugation'', ''er geht'']) < 4
   \<and> main_tables (\<lambda>s. None) [((''a'', ''1''), [''ich gehe'', ''du gehst'', ''Konjugation'', ''er geht''])] = Inr []
   \<and> \<not> looks_like_pronoun_line ''Konjugation''
   \<and> pronoun_lines ([''ich gehe'', ''du gehst''] @ [''Konjugation''] @ [''er geht'', ''wir gehen''])
       = [''ich gehe'', ''du gehst'', ''er geht'', ''wir gehen'']
   \<and> extract_tables_from_group (pronoun_lines ([''ich gehe'', ''du gehst''] @ [''Konjugation''] @ [''er geht'', ''wir gehen'']))
       = [[(''ich'', ''gehe''), (''du'', ''gehst''), (''er'', ''geht''), (''wir'', ''gehen'')]]
   \<and> extract_tables_from_group ([''ich gehe'', ''du gehst''] @ [''Konjugation''] @ [''er geht'', ''wir gehen'']) = []
   \<and> main_tables (\<lambda>s. if s = ''3'' then Some 3 else None)
        [((''a.pptx'', ''3''), [''ich gehe'', ''du gehst'', ''Konjugation'', ''er geht'', ''wir gehen''])]
       = Inr [\<lparr>table_id = ''a.pptx__slide3'', lemma_guess = ''gehen'',
                pattern_guess = ''stem_change'',
                forms = [(''ich'', ''gehe''), (''du'', ''gehst''), (''er'', ''geht''), (''wir'', ''gehen'')],
                source = (''a.pptx'', 3)\<rparr>]"
proof -
  have a: "length (pronoun_lines [''ich gehe'', ''du gehst'', ''Konjugation'', ''er geht'']) < 4"
    by code_simp
  have b0: "\<not> looks_like_pronoun_line ''Konjugation''" by code_simp
  then have b: "\<forall>ln \<in> set [''Konjugation'']. \<not> looks_like_pronoun_line ln" by simp
  have c: "pronoun_lines [''ich gehe'', ''du gehst''] @ pronoun_lines [''er geht'', ''wir gehen'']
       = [''ich gehe'', ''du gehst'', ''er geht'', ''wir gehen'']" by code_simp
  have d: "extract_tables_from_group [''ich gehe'', ''du gehst'', ''er geht'', ''wir gehen'']
       = [[(''ich'', ''gehe''), (''du'', ''gehst''), (''er'', ''geht''), (''wir'', ''gehen'')]]"
    by code_simp
  have e: "extract_tables_from_group ([''ich gehe'', ''du gehst''] @ [''Konjugation''] @ [''er geht'', ''wir gehen'']) = []"
    by code_simp
  have f: "main_tables (\<lambda>s. None) [] = Inr []" by simp
  note t = filtered_lines_never_flush[of "[''ich gehe'', ''du gehst'', ''Konjugation'', ''er geht'']"
      "\<lambda>s. None" "''a''" "''1''" "[]" "[]" "[]" "[''Konjugation'']" "[''ich gehe'', ''du gehst'']" "[''er geht'', ''wir gehen'']"]
  from t[THEN conjunct2, THEN conjunct2, THEN conjunct1, THEN mp, OF a]
  have g: "main_tables (\<lambda>s. None) [((''a'', ''1''), [''ich gehe'', ''du gehst'', ''Konjugation'', ''er geht''])] = Inr []"
    using f by simp
  from t[THEN conjunct2, THEN conjunct2, THEN conjunct2, THEN conjunct2, THEN conjunct2,
      THEN conjunct1, THEN mp, OF b, THEN conjunct1]
  have h: "pronoun_lines ([''ich gehe'', ''du gehst''] @ [''Konjugation''] @ [''er geht'', ''wir gehen''])
       = [''ich gehe'', ''du gehst'', ''er geht'', ''wir gehen'']" using c by simp
  let ?L = "[''ich gehe'', ''du gehst'', ''Konjugation'', ''er geht'', ''wir gehen'']"
  let ?ti = "\<lambda>s. if s = ''3'' then Some (3::int) else None"
  have k1: "\<not> length (pronoun_lines ?L) < 4" by code_simp
  have k2: "4 \<le> length (snd (scan (pronoun_lines ?L) ([], [])))" by code_simp
  have k3: "?ti ''3'' = Some 3" by simp
  have k4: "\<lparr>table_id = ''a.pptx'' @ ''__slide'' @ ''3'',
             lemma_guess = guess_lemma (snd (scan (pronoun_lines ?L) ([], []))),
             pattern_guess = detect_pattern (snd (scan (pronoun_lines ?L) ([], []))),
             forms = ordered_forms (snd (scan (pronoun_lines ?L) ([], []))),
             source = (''a.pptx'', 3::int)\<rparr>
      = \<lparr>table_id = ''a.pptx__slide3'', lemma_guess = ''gehen'',
          pattern_guess = ''stem_change'',
          forms = [(''ich'', ''gehe''), (''du'', ''gehst''), (''er'', ''geht''), (''wir'', ''gehen'')],
          source = (''a.pptx'', 3)\<rparr>" by code_simp
  from filtered_lines_never_flush[where lines = ?L and to_int = ?ti and ppt = "''a.pptx''"
        and slide = "''3''" and n = 3,
      THEN conjunct2, THEN conjunct2, THEN conjunct2, THEN conjunct2, THEN conjunct2,
      THEN conjunct2, THEN conjunct2, THEN conjunct1, THEN mp, OF conjI[OF k1 conjI[OF k2 k3]]]
  have m: "main_tables ?ti [((''a.pptx'', ''3''), ?L)]
       = Inr [\<lparr>table_id = ''a.pptx__slide3'', lemma_guess = ''gehen'',
                pattern_guess = ''stem_change'',
                forms = [(''ich'', ''gehe''), (''du'', ''gehst''), (''er'', ''geht''), (''wir'', ''gehen'')],
                source = (''a.pptx'', 3)\<rparr>]"
    unfolding k4 .
  show ?thesis using a b0 g h d e m by simp
qed

section \<open>Properties of the index builder\<close>

lemma dumped_partitions_append:
  "dumped_partitions (a @ b) = dumped_partitions a @ dumped_partitions b"
  by (induction a rule: dumped_partitions.induct) simp_all

lemma index_written_append:
  "index_written (a @ b) \<longleftrightarrow> index_written a \<or> index_written b"
  by (induction a rule: index_written.induct) simp_all

lemma process_file_Ends:
  "process_file fname d st = Ends out \<Longrightarrow> out = Exit 2 \<or> (\<exists>e. out = Raised e)"
  by (auto simp: process_file_def split: sum.splits if_splits option.splits prod.splits)

lemma process_file_malformed:
  assumes "malformed d"
  shows "\<exists>out. process_file fname d st = Ends out"
proof (cases "category_of d")
  case (Inl e)
  then show ?thesis by (simp add: process_file_def)
next
  case (Inr c)
  show ?thesis
  proof (cases "c = []")
    case True
    then show ?thesis using Inr by (simp add: process_file_def)
  next
    case False
    have "\<not> category_missing d"
      using Inr False
      by (auto simp: category_missing_def category_of_def dget_or_empty_def strip_def lstrip_def rstrip_def
          split: option.splits yaml.splits)
    with assms have "items_of d = None" by (simp add: malformed_def items_malformed_def)
    then show ?thesis using Inr False by (simp add: process_file_def)
  qed
qed

lemma process_file_Continues:
  assumes "process_file fname d st = Continues st'"
  shows "set (dumped_partitions (writes st'))
           \<subseteq> insert (partition_path fname) (set (dumped_partitions (writes st)))"
    and "index_written (writes st') = index_written (writes st)"
  using assms
  by (auto simp: process_file_def dumped_partitions_append index_written_append
      split: sum.splits if_splits option.splits prod.splits)

lemma process_files_malformed:
  assumes "load_all files = Inr fd"
    and "process_files fd st = (r, st')"
    and "\<exists>f \<in> set files. partition_malformed (snd f)"
  shows "(\<exists>out. r = Some out \<and> (out = Exit 2 \<or> (\<exists>e. out = Raised e)))
       \<and> set (dumped_partitions (writes st')) \<subseteq> set (dumped_partitions (writes st))
            \<union> (\<lambda>f. partition_path (fst f)) ` set (takeWhile (\<lambda>f. \<not> partition_malformed (snd f)) files)
       \<and> index_written (writes st') = index_written (writes st)"
  using assms
proof (induction files arbitrary: fd st)
  case Nil
  then show ?case by simp
next
  case (Cons f files)
  from Cons.prems(1) obtain d fd' where d: "load_yaml (snd f) = Inr d"
    and fd': "load_all files = Inr fd'" and fd: "fd = (fst f, d) # fd'"
    by (auto split: sum.splits)
  show ?case
  proof (cases "process_file (fst f) d st")
    case (Ends out)
    with Cons.prems(2) fd have "r = Some out" "st' = st" by simp_all
    then show ?thesis using process_file_Ends[OF Ends] by simp
  next
    case (Continues st1)
    have nm: "\<not> partition_malformed (snd f)"
      using process_file_malformed[of d "fst f" st] Continues d
      by (auto simp: partition_malformed_def)
    with Cons.prems(3) have ex: "\<exists>f \<in> set files. partition_malformed (snd f)" by auto
    from Cons.prems(2) fd Continues have "process_files fd' st1 = (r, st')" by simp
    from Cons.IH[OF fd' this ex] process_file_Continues[OF Continues] nm
    show ?thesis by auto
  qed
qed

lemma malformed_run_bounds:
  assumes "\<exists>f \<in> set files. partition_malformed (snd f)"
  shows "\<not> index_written (snd (builder_main dir_exists files index_exists))
       \<and> exit_code (fst (builder_main dir_exists files index_exists)) \<noteq> 0
       \<and> (fst (builder_main dir_exists files index_exists) = Exit 2
            \<or> (\<exists>e. fst (builder_main dir_exists files index_exists) = Raised e))
       \<and> set (dumped_partitions (snd (builder_main dir_exists files index_exists)))
            \<subseteq> (\<lambda>f. partition_path (fst f)) ` set (takeWhile (\<lambda>f. \<not> partition_malformed (snd f)) files)"
proof (cases "dir_exists")
  case False
  then show ?thesis by (simp add: builder_main_def)
next
  case True
  show ?thesis
  proof (cases "load_all files")
    case (Inl e)
    then show ?thesis using True by (simp add: builder_main_def)
  next
    case (Inr fd)
    show ?thesis
    proof (cases "fd = []")
      case True
      then show ?thesis using Inr \<open>dir_exists\<close> by (simp add: builder_main_def)
    next
      case False
      let ?st = "\<lparr>used_counts = map (\<lambda>(k, v). (k, 1)) (collect_all_existing_ids fd),
                   index_items = [], writes = []\<rparr>"
      obtain r st' where p: "process_files fd ?st = (r, st')" by (cases "process_files fd ?st")
      from process_files_malformed[OF Inr p assms] obtain out where
        r: "r = Some out" and o: "out = Exit 2 \<or> (\<exists>e. out = Raised e)"
        and w: "set (dumped_partitions (writes st'))
                  \<subseteq> (\<lambda>f. partition_path (fst f)) ` set (takeWhile (\<lambda>f. \<not> partition_malformed (snd f)) files)"
        and i: "\<not> index_written (writes st')"
        by auto
      have "builder_main dir_exists files index_exists = (out, writes st')"
        using True Inr False p r by (simp add: builder_main_def Let_def)
      then show ?thesis using o w i by auto
    qed
  qed
qed














text \<open>
  C9. For the category \<open>noun\<close> and the text \<open>die Schuhe\<close> the proposed identifier is
  \<open>LEX.NOUN.SCHUHE.DIE\<close>: the article is split off, the core normalized, the article
  appended. With no identifier used so far it is returned unchanged; its second use in the
  same run gives \<open>LEX.NOUN.SCHUHE.DIE.2\<close>, and a run of the builder over a partition
  with two such entries writes these two identifiers to the index.
\<close>

theorem schuhe_identifiers:
  "make_lex_id ''noun'' (YStr ''die Schuhe'') = Inr ''LEX.NOUN.SCHUHE.DIE''
   \<and> parse_noun_text ''die Schuhe'' = (Some ''die'', ''Schuhe'')
   \<and> to_id_token ''Schuhe'' = ''SCHUHE'' \<and> to_id_token ''die'' = ''DIE''
   \<and> ensure_unique_id ''LEX.NOUN.SCHUHE.DIE'' []
        = (''LEX.NOUN.SCHUHE.DIE'', [(''LEX.NOUN.SCHUHE.DIE'', 1)])
   \<and> ensure_unique_id ''LEX.NOUN.SCHUHE.DIE'' [(''LEX.NOUN.SCHUHE.DIE'', 1)]
        = (''LEX.NOUN.SCHUHE.DIE.2'', [(''LEX.NOUN.SCHUHE.DIE'', 2)])
   \<and> index_ids (snd (builder_main True
        [(''nouns.yaml'', YDict [(YStr ''category'', YStr ''noun''),
            (YStr ''items'', YList [YDict [(YStr ''text'', YStr ''die Schuhe'')],
                                    YDict [(YStr ''text'', YStr ''die Schuhe'')]])])]
        False)) = [''LEX.NOUN.SCHUHE.DIE'', ''LEX.NOUN.SCHUHE.DIE.2'']"
  by code_simp

text \<open>
  C1 does not hold of the code. The identifier \<open>ensure_unique_id\<close> returns with a
  suffix is not recorded in the counter dictionary, so a later entry that proposes this
  very identifier gets it unchanged: the nouns \<open>Katze\<close>, \<open>Katze\<close>, \<open>Katze 2\<close>, none
  with an identifier yet, end a successful run with \<open>LEX.NOUN.KATZE.2\<close> twice in the
  index.
\<close>

theorem duplicate_identifier_run:
  "index_ids (snd (builder_main True
        [(''nouns.yaml'', YDict [(YStr ''category'', YStr ''noun''),
            (YStr ''items'', YList [YDict [(YStr ''text'', YStr ''Katze'')],
                                    YDict [(YStr ''text'', YStr ''Katze'')],
                                    YDict [(YStr ''text'', YStr ''Katze 2'')]])])]
        False)) = [''LEX.NOUN.KATZE'', ''LEX.NOUN.KATZE.2'', ''LEX.NOUN.KATZE.2'']
   \<and> fst (builder_main True
        [(''nouns.yaml'', YDict [(YStr ''category'', YStr ''noun''),
            (YStr ''items'', YList [YDict [(YStr ''text'', YStr ''Katze'')],
                                    YDict [(YStr ''text'', YStr ''Katze'')],
                                    YDict [(YStr ''text'', YStr ''Katze 2'')]])])]
        False) = Exit 0
   \<and> \<not> distinct [''LEX.NOUN.KATZE'', ''LEX.NOUN.KATZE.2'', ''LEX.NOUN.KATZE.2'']
   \<and> fst (ensure_unique_id ''LEX.NOUN.KATZE'' [(''LEX.NOUN.KATZE'', 1)]) = ''LEX.NOUN.KATZE.2''
   \<and> fst (ensure_unique_id ''LEX.NOUN.KATZE.2'' [(''LEX.NOUN.KATZE'', 2)]) = ''LEX.NOUN.KATZE.2''"
  by code_simp

section \<open>Properties of the validator\<close>













section \<open>Properties of the deduplicator\<close>

lemma dget_dset: "dget (dset k v d) k' = (if k' = k then Some v else dget d k')"
  by (simp add: dget_def dset_def update_conv')

lemma dget_delete: "dget (AList.delete (YStr k) d) k' = (if k' = k then None else dget d k')"
  by (simp add: dget_def delete_conv')

lemma dget_normalized:
  "k \<noteq> ''sources'' \<Longrightarrow> k \<noteq> ''source'' \<Longrightarrow> dget (normalized t) k = dget t k"
  by (simp add: normalized_def dget_dset dget_delete)

lemma forms_of_dset_sources: "forms_of (dset ''sources'' v t) = forms_of t"
  by (simp add: forms_of_def dget_dset)

lemma forms_of_normalized: "forms_of (normalized t) = forms_of t"
  by (simp add: forms_of_def dget_normalized)

lemma table_sig_dset_sources: "table_sig (dset ''sources'' v t) = table_sig t"
proof -
  have "dget (dset ''sources'' v t) ''lemma_guess'' = dget t ''lemma_guess''"
    by (simp add: dget_dset)
  then show ?thesis unfolding table_sig_def forms_of_dset_sources by simp
qed

lemma table_sig_normalized: "table_sig (normalized t) = table_sig t"
proof -
  have "dget (normalized t) ''lemma_guess'' = dget t ''lemma_guess''"
    by (simp add: dget_normalized)
  then show ?thesis unfolding table_sig_def forms_of_normalized by simp
qed

lemma sources_of_dset: "sources_of (dset ''sources'' (YList xs) t) = xs"
  by (simp add: sources_of_def dget_dset)

lemma normalized_no_source: "YStr ''source'' \<notin> fst ` set (normalized t)"
proof -
  have "fst ` set (normalized t) = {YStr ''sources''} \<union> fst ` set (AList.delete (YStr ''source'') t)"
    by (simp add: normalized_def dset_def dom_update)
  then show ?thesis using delete_notin_dom[of "YStr ''source''" t] by auto
qed

lemma normalized_dset_sources:
  assumes "normalized t = t"
  shows "normalized (dset ''sources'' (YList xs) t) = dset ''sources'' (YList xs) t"
proof -
  have "YStr ''source'' \<notin> fst ` set t" using normalized_no_source[of t] assms by simp
  then have d: "AList.delete (YStr ''source'') t = t" by simp
  have "AList.delete (YStr ''source'') (dset ''sources'' (YList xs) t)
          = dset ''sources'' (YList xs) (AList.delete (YStr ''source'') t)"
    by (simp add: dset_def delete_update)
  then show ?thesis by (simp add: normalized_def sources_of_dset d) (simp add: dset_def)
qed

lemma normalized_idem: "normalized (normalized t) = normalized t"
proof -
  have "AList.delete (YStr ''source'') (normalized t) = normalized t"
    using normalized_no_source[of t] by simp
  moreover have "sources_of (normalized t) = sources_of t"
    by (simp add: normalized_def sources_of_dset)
  ultimately show ?thesis
    by (simp add: normalized_def[of "normalized t"]) (simp add: normalized_def dset_def)
qed

lemma merge_into_keeps:
  assumes "merge_into existing srcs = Inr e'"
  shows "table_sig e' = table_sig existing"
    and "normalized existing = existing \<Longrightarrow> normalized e' = e'"
proof -
  from assms obtain ys where e': "e' = dset ''sources'' (YList ys) existing"
    by (auto simp: merge_into_def split: sum.splits option.splits yaml.splits)
  show "table_sig e' = table_sig existing" by (simp add: e' table_sig_dset_sources)
  show "normalized e' = e'" if "normalized existing = existing"
    using that by (simp add: e' normalized_dset_sources)
qed

lemma set_update_subset': "set (AList.update k v al) \<subseteq> insert (k, v) (set al)"
  by (induction al) auto

lemma inv_merged_step:
  assumes "inv_merged m" and "dedupe_step t m = Inr m'"
  shows "inv_merged m'"
proof -
  from assms(2) obtain td where t: "t = YDict td" by (cases t) (simp_all add: dedupe_step_def)
  from assms(2) t obtain sg where sg: "table_sig td = Inr sg"
    by (cases "table_sig td") (simp_all add: dedupe_step_def)
  show ?thesis
  proof (cases "map_of m sg")
    case None
    then have "sg \<notin> fst ` set m" by (simp add: map_of_eq_None_iff)
    moreover from assms(2) t sg None have "m' = m @ [(sg, normalized td)]"
      by (simp add: dedupe_step_def)
    ultimately show ?thesis using assms(1) sg
      by (auto simp: inv_merged_def table_sig_normalized normalized_idem)
  next
    case (Some existing)
    with assms(2) t sg obtain e' where e': "merge_into existing (sources_of td) = Inr e'"
      and m': "m' = AList.update sg e' m"
      by (cases "merge_into existing (sources_of td)") (simp_all add: dedupe_step_def)
    from Some have "(sg, existing) \<in> set m" by (rule map_of_SomeD)
    with assms(1) have ex: "table_sig existing = Inr sg" "normalized existing = existing"
      by (auto simp: inv_merged_def)
    from merge_into_keeps[OF e'] ex have "table_sig e' = Inr sg" "normalized e' = e'" by simp_all
    then show ?thesis using assms(1) set_update_subset'[of sg e' m]
      by (auto simp: inv_merged_def m' distinct_update)
  qed
qed

lemma inv_merged_loop:
  "inv_merged m \<Longrightarrow> dedupe_loop ts m = Inr m' \<Longrightarrow> inv_merged m'"
proof (induction ts arbitrary: m)
  case Nil
  then show ?case by simp
next
  case (Cons t ts)
  from Cons.prems(2) obtain m1 where s: "dedupe_step t m = Inr m1"
    by (cases "dedupe_step t m") simp_all
  with Cons.prems(2) have "dedupe_loop ts m1 = Inr m'" by simp
  from Cons.IH[OF inv_merged_step[OF Cons.prems(1) s] this] show ?case .
qed

lemma dedupe_replay:
  "inv_merged (m1 @ m2) \<Longrightarrow> dedupe_loop (map (\<lambda>m. YDict (snd m)) m2) m1 = Inr (m1 @ m2)"
proof (induction m2 arbitrary: m1)
  case Nil
  then show ?case by simp
next
  case (Cons e m2)
  from Cons.prems have sg: "table_sig (snd e) = Inr (fst e)" and n: "normalized (snd e) = snd e"
    and d: "fst e \<notin> fst ` set m1"
    by (auto simp: inv_merged_def)
  from d have "map_of m1 (fst e) = None" by (simp add: map_of_eq_None_iff)
  then have "dedupe_step (YDict (snd e)) m1 = Inr (m1 @ [e])"
    using sg n by (simp add: dedupe_step_def)
  moreover have "inv_merged ((m1 @ [e]) @ m2)" using Cons.prems by simp
  ultimately show ?case using Cons.IH[of "m1 @ [e]"] by simp
qed

lemma dedupe_tables_idem:
  assumes "dedupe_tables tables = Inr once"
  shows "dedupe_tables once = Inr once"
proof -
  from assms obtain m where m: "dedupe_loop tables [] = Inr m"
    and once: "once = map (\<lambda>m. YDict (snd m)) m"
    by (auto simp: dedupe_tables_def split: sum.splits)
  have "inv_merged []" by (simp add: inv_merged_def)
  from inv_merged_loop[OF this m] have "inv_merged ([] @ m)" by simp
  from dedupe_replay[OF this] show ?thesis by (simp add: dedupe_tables_def once)
qed

text \<open>
  C7. The reduction is idempotent: when it returns a table list for a list of tables,
  applying it to that result returns the same list again, with the same tables in the same
  order and the same merged sources; and when \<open>main\<close> writes a document, a second run on
  the written document writes the same document.
\<close>

theorem dedupe_idempotent:
  "(dedupe_tables tables = Inr once \<longrightarrow> dedupe_tables once = Inr once)
   \<and> (dedupe_main data = Inr written \<longrightarrow> dedupe_main (YDict written) = Inr written)"
proof -
  have "dedupe_main (YDict written) = Inr written" if w: "dedupe_main data = Inr written"
  proof -
    from w obtain d where d: "data = YDict d" by (cases data) (simp_all add: dedupe_main_def)
    from w d obtain tables once where o: "dedupe_tables tables = Inr once"
      and wr: "written = dset ''tables'' (YList once) d"
      by (auto simp: dedupe_main_def split: option.splits sum.splits)
    have "dget written ''tables'' = Some (YList once)" by (simp add: wr dget_dset)
    moreover have "dset ''tables'' (YList once) written = written" by (simp add: wr dset_def)
    ultimately show ?thesis using dedupe_tables_idem[OF o] by (simp add: dedupe_main_def)
  qed
  then show ?thesis using dedupe_tables_idem by blast
qed

theorem dedupe_idempotent_witness:
  "dedupe_tables
     [YDict [(YStr ''table_id'', YStr ''a__slide1''), (YStr ''lemma_guess'', YStr ''gehen''),
             (YStr ''forms'', YDict [(YStr ''ich'', YStr ''gehe''), (YStr ''du'', YStr ''gehst'')]),
             (YStr ''source'', YDict [(YStr ''ppt'', YStr ''a''), (YStr ''slide'', YInt 1)])],
      YDict [(YStr ''table_id'', YStr ''b__slide2''), (YStr ''lemma_guess'', YStr ''gehen''),
             (YStr ''forms'', YDict [(YStr ''du'', YStr ''gehst''), (YStr ''ich'', YStr ''gehe'')]),
             (YStr ''source'', YDict [(YStr ''ppt'', YStr ''b''), (YStr ''slide'', YInt 2)])]]
     = Inr [YDict [(YStr ''table_id'', YStr ''a__slide1''), (YStr ''lemma_guess'', YStr ''gehen''),
             (YStr ''forms'', YDict [(YStr ''ich'', YStr ''gehe''), (YStr ''du'', YStr ''gehst'')]),
             (YStr ''sources'', YList [YDict [(YStr ''ppt'', YStr ''a''), (YStr ''slide'', YInt 1)],
                                       YDict [(YStr ''ppt'', YStr ''b''), (YStr ''slide'', YInt 2)]])]]
   \<and> dedupe_tables
     [YDict [(YStr ''table_id'', YStr ''a__slide1''), (YStr ''lemma_guess'', YStr ''gehen''),
             (YStr ''forms'', YDict [(YStr ''ich'', YStr ''gehe''), (YStr ''du'', YStr ''gehst'')]),
             (YStr ''sources'', YList [YDict [(YStr ''ppt'', YStr ''a''), (YStr ''slide'', YInt 1)],
                                       YDict [(YStr ''ppt'', YStr ''b''), (YStr ''slide'', YInt 2)]])]]
     = Inr [YDict [(YStr ''table_id'', YStr ''a__slide1''), (YStr ''lemma_guess'', YStr ''gehen''),
             (YStr ''forms'', YDict [(YStr ''ich'', YStr ''gehe''), (YStr ''du'', YStr ''gehst'')]),
             (YStr ''sources'', YList [YDict [(YStr ''ppt'', YStr ''a''), (YStr ''slide'', YInt 1)],
                                       YDict [(YStr ''ppt'', YStr ''b''), (YStr ''slide'', YInt 2)]])]]
   \<and> dedupe_main (YDict [(YStr ''schema_version'', YStr ''0.1''), (YStr ''tables'', YList [])])
     = Inr [(YStr ''schema_version'', YStr ''0.1''), (YStr ''tables'', YList [])]"
proof -
  let ?in = "[YDict [(YStr ''table_id'', YStr ''a__slide1''), (YStr ''lemma_guess'', YStr ''gehen''),
             (YStr ''forms'', YDict [(YStr ''ich'', YStr ''gehe''), (YStr ''du'', YStr ''gehst'')]),
             (YStr ''source'', YDict [(YStr ''ppt'', YStr ''a''), (YStr ''slide'', YInt 1)])],
      YDict [(YStr ''table_id'', YStr ''b__slide2''), (YStr ''lemma_guess'', YStr ''gehen''),
             (YStr ''forms'', YDict [(YStr ''du'', YStr ''gehst''), (YStr ''ich'', YStr ''gehe'')]),
             (YStr ''source'', YDict [(YStr ''ppt'', YStr ''b''), (YStr ''slide'', YInt 2)])]]"
  let ?once = "[YDict [(YStr ''table_id'', YStr ''a__slide1''), (YStr ''lemma_guess'', YStr ''gehen''),
             (YStr ''forms'', YDict [(YStr ''ich'', YStr ''gehe''), (YStr ''du'', YStr ''gehst'')]),
             (YStr ''sources'', YList [YDict [(YStr ''ppt'', YStr ''a''), (YStr ''slide'', YInt 1)],
                                       YDict [(YStr ''ppt'', YStr ''b''), (YStr ''slide'', YInt 2)]])]]"
  let ?doc = "[(YStr ''schema_version'', YStr ''0.1''), (YStr ''tables'', YList [])]"
  have a: "dedupe_tables ?in = Inr ?once" by code_simp
  have b: "dedupe_main (YDict ?doc) = Inr ?doc" by code_simp
  from dedupe_idempotent[of ?in ?once, THEN conjunct1, THEN mp, OF a]
  have c: "dedupe_tables ?once = Inr ?once" .
  from dedupe_idempotent[of _ _ "YDict ?doc" ?doc, THEN conjunct2, THEN mp, OF b]
  have d: "dedupe_main (YDict ?doc) = Inr ?doc" .
  show ?thesis using a c d by blast
qed

lemma seen_of_prov_keys: "seen_of xs = Inr seen \<Longrightarrow> prov_keys xs = seen"
proof (induction xs arbitrary: seen)
  case Nil
  then show ?case by (simp add: prov_keys_def)
next
  case (Cons s ss)
  show ?case
  proof (cases s)
    case (YDict sd)
    with Cons.prems obtain k ks where k: "prov_key sd = Inr k" and ks: "seen_of ss = Inr ks"
      and seen: "seen = k # ks"
      by (auto split: sum.splits)
    from Cons.IH[OF ks] show ?thesis using YDict k seen by (simp add: prov_keys_def)
  qed (use Cons in \<open>simp_all add: prov_keys_def\<close>)
qed

lemma prov_keys_append: "prov_keys (xs @ ys) = prov_keys xs @ prov_keys ys"
  by (simp add: prov_keys_def)

lemma prov_keys_Cons_dict:
  "prov_key sd = Inr k \<Longrightarrow> prov_keys (YDict sd # ss) = k # prov_keys ss"
  by (simp add: prov_keys_def)

lemma fresh_dict_tail: "fresh_dict (k # seen) x \<Longrightarrow> fresh_dict seen x"
  by (cases x) (auto simp: fresh_dict_def split: sum.splits)

lemma prov_keys_fresh:
  "\<forall>s \<in> set added. fresh_dict seen s \<Longrightarrow>
   set (prov_keys added) \<inter> set seen = {} \<and> length (prov_keys added) = length added"
  by (induction added) (auto simp: fresh_dict_def prov_keys_def split: yaml.splits sum.splits)

lemma merge_loop_appends:
  "merge_loop ss seen ex = Inr res \<Longrightarrow>
   \<exists>added. res = ex @ added \<and> set added \<subseteq> set ss
      \<and> (\<forall>s \<in> set added. fresh_dict seen s)
      \<and> distinct (prov_keys added)
      \<and> set (prov_keys ss) \<subseteq> set seen \<union> set (prov_keys added)"
proof (induction ss arbitrary: seen ex)
  case Nil
  then show ?case by (simp add: prov_keys_def)
next
  case (Cons s ss)
  show ?case
  proof (cases s)
    case (YDict sd)
    from Cons.prems YDict obtain k where k: "prov_key sd = Inr k"
      by (cases "prov_key sd") simp_all
    show ?thesis
    proof (cases "k \<in> set seen")
      case True
      with Cons.prems YDict k have "merge_loop ss seen ex = Inr res" by simp
      from Cons.IH[OF this] obtain added where a: "res = ex @ added" "set added \<subseteq> set ss"
        "\<forall>s \<in> set added. fresh_dict seen s" "distinct (prov_keys added)"
        "set (prov_keys ss) \<subseteq> set seen \<union> set (prov_keys added)" by blast
      have "set (prov_keys (s # ss)) \<subseteq> set seen \<union> set (prov_keys added)"
        using a(5) True by (simp add: YDict prov_keys_Cons_dict[OF k])
      with a show ?thesis by auto
    next
      case False
      with Cons.prems YDict k have "merge_loop ss (k # seen) (ex @ [s]) = Inr res" by simp
      from Cons.IH[OF this] obtain added where a: "res = (ex @ [s]) @ added" "set added \<subseteq> set ss"
        "\<forall>s \<in> set added. fresh_dict (k # seen) s" "distinct (prov_keys added)"
        "set (prov_keys ss) \<subseteq> set (k # seen) \<union> set (prov_keys added)" by blast
      have "fresh_dict seen s" using False YDict k by (simp add: fresh_dict_def)
      moreover have "fresh_dict seen x" if "x \<in> set added" for x
        using a(3) that fresh_dict_tail by blast
      ultimately have f: "\<forall>x \<in> set (s # added). fresh_dict seen x" by auto
      have "k \<notin> set (prov_keys added)" using prov_keys_fresh[OF a(3)] by auto
      then have d: "distinct (prov_keys (s # added))"
        using a(4) by (simp add: YDict prov_keys_Cons_dict[OF k])
      have c: "set (prov_keys (s # ss)) \<subseteq> set seen \<union> set (prov_keys (s # added))"
        using a(5) by (auto simp: YDict prov_keys_Cons_dict[OF k])
      have "res = ex @ (s # added)" using a(1) by simp
      moreover have "set (s # added) \<subseteq> set (s # ss)" using a(2) by auto
      ultimately show ?thesis using f d c by blast
    qed
  next
    case YNull
    with Cons.prems have "merge_loop ss seen ex = Inr res" by simp
    from Cons.IH[OF this] show ?thesis using YNull by (auto simp: prov_keys_def)
  next
    case (YBool b)
    with Cons.prems have "merge_loop ss seen ex = Inr res" by simp
    from Cons.IH[OF this] show ?thesis using YBool by (auto simp: prov_keys_def)
  next
    case (YInt i)
    with Cons.prems have "merge_loop ss seen ex = Inr res" by simp
    from Cons.IH[OF this] show ?thesis using YInt by (auto simp: prov_keys_def)
  next
    case (YStr x)
    with Cons.prems have "merge_loop ss seen ex = Inr res" by simp
    from Cons.IH[OF this] show ?thesis using YStr by (auto simp: prov_keys_def)
  next
    case (YList x)
    with Cons.prems have "merge_loop ss seen ex = Inr res" by simp
    from Cons.IH[OF this] show ?thesis using YList by (auto simp: prov_keys_def)
  qed
qed

lemma merge_into_result:
  assumes "dget existing ''sources'' = Some (YList xs)"
    and "merge_into existing srcs = Inr e'"
  shows "\<exists>added. e' = dset ''sources'' (YList (xs @ added)) existing
      \<and> set added \<subseteq> set srcs
      \<and> (\<forall>s \<in> set added. fresh_dict (prov_keys xs) s)
      \<and> distinct (prov_keys added)
      \<and> set (prov_keys srcs) \<subseteq> set (prov_keys (xs @ added))"
proof -
  from assms obtain seen where seen: "seen_of xs = Inr seen"
    by (cases "seen_of xs") (simp_all add: merge_into_def)
  from assms seen obtain res where res: "merge_loop srcs seen xs = Inr res"
    and e': "e' = dset ''sources'' (YList res) existing"
    by (cases "merge_loop srcs seen xs") (simp_all add: merge_into_def)
  from merge_loop_appends[OF res] seen_of_prov_keys[OF seen] e'
  show ?thesis by (auto simp: prov_keys_append)
qed

lemma dset_keeps_keys:
  "dget d k \<noteq> None \<Longrightarrow> map fst (dset k v d) = map fst d"
  by (auto simp: dget_def dset_def update_keys map_of_eq_None_iff)

text \<open>
  C8. When a table meets its signature in \<open>merged\<close>, the table stored there survives in
  its place with every key but \<open>sources\<close> as it was, so with the table_id and the metadata
  of the table seen first, and no table is added. Its \<open>sources\<close> list grows at the end by
  sources of the duplicate only: each one appended is a dictionary whose (ppt, slide) pair
  occurs neither in the list as it was nor among the pairs appended with it, and every pair
  of the duplicate is in the list afterwards. For two tables with one signature this is the
  whole result: the first table, normalized, with the new pairs of the second.
\<close>

theorem merge_keeps_first_table:
  "(table_sig t = Inr sg \<and> map_of merged sg = Some existing
      \<and> dget existing ''sources'' = Some (YList xs)
      \<and> dedupe_step (YDict t) merged = Inr merged' \<longrightarrow>
     (\<exists>added. merged' = AList.update sg (dset ''sources'' (YList (xs @ added)) existing) merged
        \<and> map fst merged' = map fst merged
        \<and> map fst (dset ''sources'' (YList (xs @ added)) existing) = map fst existing
        \<and> (\<forall>k. k \<noteq> ''sources'' \<longrightarrow>
              dget (dset ''sources'' (YList (xs @ added)) existing) k = dget existing k)
        \<and> set added \<subseteq> set (sources_of t)
        \<and> (\<forall>s \<in> set added. fresh_dict (prov_keys xs) s)
        \<and> distinct (prov_keys added)
        \<and> set (prov_keys (sources_of t)) \<subseteq> set (prov_keys (xs @ added))))
   \<and> (table_sig a = Inr sg \<and> table_sig b = Inr sg
        \<and> dedupe_tables [YDict a, YDict b] = Inr out \<longrightarrow>
     (\<exists>added. out = [YDict (dset ''sources'' (YList (sources_of a @ added)) (normalized a))]
        \<and> (\<forall>k. k \<noteq> ''sources'' \<and> k \<noteq> ''source'' \<longrightarrow>
              dget (dset ''sources'' (YList (sources_of a @ added)) (normalized a)) k = dget a k)
        \<and> set added \<subseteq> set (sources_of b)
        \<and> (\<forall>s \<in> set added. fresh_dict (prov_keys (sources_of a)) s)
        \<and> distinct (prov_keys added)
        \<and> set (prov_keys (sources_of b)) \<subseteq> set (prov_keys (sources_of a @ added))))"
proof -
  have step: "\<exists>added. m' = AList.update g (dset ''sources'' (YList (ys @ added)) ex) m
        \<and> map fst m' = map fst m
        \<and> map fst (dset ''sources'' (YList (ys @ added)) ex) = map fst ex
        \<and> (\<forall>k. k \<noteq> ''sources'' \<longrightarrow> dget (dset ''sources'' (YList (ys @ added)) ex) k = dget ex k)
        \<and> set added \<subseteq> set (sources_of u)
        \<and> (\<forall>s \<in> set added. fresh_dict (prov_keys ys) s)
        \<and> distinct (prov_keys added)
        \<and> set (prov_keys (sources_of u)) \<subseteq> set (prov_keys (ys @ added))"
    if h: "table_sig u = Inr g" "map_of m g = Some ex" "dget ex ''sources'' = Some (YList ys)"
      "dedupe_step (YDict u) m = Inr m'" for u g m ex ys m'
  proof -
    from h obtain e' where e': "merge_into ex (sources_of u) = Inr e'"
      and m': "m' = AList.update g e' m"
      by (cases "merge_into ex (sources_of u)") (simp_all add: dedupe_step_def)
    from merge_into_result[OF h(3) e'] obtain added where
      a: "e' = dset ''sources'' (YList (ys @ added)) ex" "set added \<subseteq> set (sources_of u)"
        "\<forall>s \<in> set added. fresh_dict (prov_keys ys) s" "distinct (prov_keys added)"
        "set (prov_keys (sources_of u)) \<subseteq> set (prov_keys (ys @ added))" by blast
    have "g \<in> fst ` set m" using h(2) by (metis map_of_eq_None_iff option.distinct(1))
    then have k: "map fst m' = map fst m" by (simp add: m' update_keys)
    have k2: "map fst (dset ''sources'' (YList (ys @ added)) ex) = map fst ex"
      using h(3) by (simp add: dset_keeps_keys)
    have k3: "\<forall>k. k \<noteq> ''sources'' \<longrightarrow> dget (dset ''sources'' (YList (ys @ added)) ex) k = dget ex k"
      by (simp add: dget_dset)
    show ?thesis using a m' k k2 k3 by blast
  qed
  have two: "\<exists>added. out = [YDict (dset ''sources'' (YList (sources_of a @ added)) (normalized a))]
        \<and> (\<forall>k. k \<noteq> ''sources'' \<and> k \<noteq> ''source'' \<longrightarrow>
              dget (dset ''sources'' (YList (sources_of a @ added)) (normalized a)) k = dget a k)
        \<and> set added \<subseteq> set (sources_of b)
        \<and> (\<forall>s \<in> set added. fresh_dict (prov_keys (sources_of a)) s)
        \<and> distinct (prov_keys added)
        \<and> set (prov_keys (sources_of b)) \<subseteq> set (prov_keys (sources_of a @ added))"
    if h: "table_sig a = Inr sg" "table_sig b = Inr sg" "dedupe_tables [YDict a, YDict b] = Inr out"
  proof -
    let ?m = "[(sg, normalized a)]"
    have s1: "dedupe_step (YDict a) [] = Inr ?m" using h(1) by (simp add: dedupe_step_def)
    from h(3) s1 obtain m' where s2: "dedupe_step (YDict b) ?m = Inr m'"
      and out: "out = map (\<lambda>m. YDict (snd m)) m'"
      by (cases "dedupe_step (YDict b) ?m") (simp_all add: dedupe_tables_def)
    have g: "dget (normalized a) ''sources'' = Some (YList (sources_of a))"
      by (simp add: normalized_def dget_dset)
    have mo: "map_of ?m sg = Some (normalized a)" by simp
    from step[OF h(2) mo g s2] obtain added where
      a: "m' = AList.update sg (dset ''sources'' (YList (sources_of a @ added)) (normalized a)) ?m"
        "set added \<subseteq> set (sources_of b)"
        "\<forall>s \<in> set added. fresh_dict (prov_keys (sources_of a)) s" "distinct (prov_keys added)"
        "set (prov_keys (sources_of b)) \<subseteq> set (prov_keys (sources_of a @ added))" by blast
    have o: "out = [YDict (dset ''sources'' (YList (sources_of a @ added)) (normalized a))]"
      using a(1) out by simp
    have k: "\<forall>k. k \<noteq> ''sources'' \<and> k \<noteq> ''source'' \<longrightarrow>
              dget (dset ''sources'' (YList (sources_of a @ added)) (normalized a)) k = dget a k"
      by (simp add: dget_dset dget_normalized)
    show ?thesis using o k a(2-5) by blast
  qed
  show ?thesis using step[of t sg merged existing xs merged'] two by blast
qed

theorem merge_keeps_first_table_witness:
  "table_sig [(YStr ''table_id'', YStr ''a__slide1''), (YStr ''lemma_guess'', YStr ''gehen''),
             (YStr ''forms'', YDict [(YStr ''ich'', YStr ''gehe''), (YStr ''du'', YStr ''gehst'')]),
             (YStr ''sources'', YList [YDict [(YStr ''ppt'', YStr ''a''), (YStr ''slide'', YInt 1)],
                                       YDict [(YStr ''ppt'', YStr ''b''), (YStr ''slide'', YInt 2)]])]
     = Inr (''gehen'', [(YStr ''du'', ''gehst''), (YStr ''ich'', ''gehe'')])
   \<and> table_sig [(YStr ''table_id'', YStr ''c__slide3''), (YStr ''lemma_guess'', YStr ''gehen ''),
             (YStr ''forms'', YDict [(YStr ''du'', YStr ''gehst''), (YStr ''ich'', YStr ''gehe'')]),
             (YStr ''sources'', YList [YDict [(YStr ''ppt'', YStr ''b''), (YStr ''slide'', YInt 2)],
                                       YDict [(YStr ''ppt'', YStr ''c''), (YStr ''slide'', YInt 3)]])]
     = Inr (''gehen'', [(YStr ''du'', ''gehst''), (YStr ''ich'', ''gehe'')])
   \<and> dedupe_tables
       [YDict [(YStr ''table_id'', YStr ''a__slide1''), (YStr ''lemma_guess'', YStr ''gehen''),
             (YStr ''forms'', YDict [(YStr ''ich'', YStr ''gehe''), (YStr ''du'', YStr ''gehst'')]),
             (YStr ''sources'', YList [YDict [(YStr ''ppt'', YStr ''a''), (YStr ''slide'', YInt 1)],
                                       YDict [(YStr ''ppt'', YStr ''b''), (YStr ''slide'', YInt 2)]])],
        YDict [(YStr ''table_id'', YStr ''c__slide3''), (YStr ''lemma_guess'', YStr ''gehen ''),
             (YStr ''forms'', YDict [(YStr ''du'', YStr ''gehst''), (YStr ''ich'', YStr ''gehe'')]),
             (YStr ''sources'', YList [YDict [(YStr ''ppt'', YStr ''b''), (YStr ''slide'', YInt 2)],
                                       YDict [(YStr ''ppt'', YStr ''c''), (YStr ''slide'', YInt 3)]])]]
     = Inr [YDict [(YStr ''table_id'', YStr ''a__slide1''), (YStr ''lemma_guess'', YStr ''gehen''),
             (YStr ''forms'', YDict [(YStr ''ich'', YStr ''gehe''), (YStr ''du'', YStr ''gehst'')]),
             (YStr ''sources'', YList [YDict [(YStr ''ppt'', YStr ''a''), (YStr ''slide'', YInt 1)],
                                       YDict [(YStr ''ppt'', YStr ''b''), (YStr ''slide'', YInt 2)],
                                       YDict [(YStr ''ppt'', YStr ''c''), (YStr ''slide'', YInt 3)]])]]
   \<and> (\<exists>added. set (prov_keys [YDict [(YStr ''ppt'', YStr ''b''), (YStr ''slide'', YInt 2)],
                                 YDict [(YStr ''ppt'', YStr ''c''), (YStr ''slide'', YInt 3)]])
        \<subseteq> set (prov_keys ([YDict [(YStr ''ppt'', YStr ''a''), (YStr ''slide'', YInt 1)],
                              YDict [(YStr ''ppt'', YStr ''b''), (YStr ''slide'', YInt 2)]] @ added))
        \<and> distinct (prov_keys added))"
proof -
  let ?a = "[(YStr ''table_id'', YStr ''a__slide1''), (YStr ''lemma_guess'', YStr ''gehen''),
             (YStr ''forms'', YDict [(YStr ''ich'', YStr ''gehe''), (YStr ''du'', YStr ''gehst'')]),
             (YStr ''sources'', YList [YDict [(YStr ''ppt'', YStr ''a''), (YStr ''slide'', YInt 1)],
                                       YDict [(YStr ''ppt'', YStr ''b''), (YStr ''slide'', YInt 2)]])]"
  let ?b = "[(YStr ''table_id'', YStr ''c__slide3''), (YStr ''lemma_guess'', YStr ''gehen ''),
             (YStr ''forms'', YDict [(YStr ''du'', YStr ''gehst''), (YStr ''ich'', YStr ''gehe'')]),
             (YStr ''sources'', YList [YDict [(YStr ''ppt'', YStr ''b''), (YStr ''slide'', YInt 2)],
                                       YDict [(YStr ''ppt'', YStr ''c''), (YStr ''slide'', YInt 3)]])]"
  let ?sg = "(''gehen'', [(YStr ''du'', ''gehst''), (YStr ''ich'', ''gehe'')])"
  let ?out = "[YDict [(YStr ''table_id'', YStr ''a__slide1''), (YStr ''lemma_guess'', YStr ''gehen''),
             (YStr ''forms'', YDict [(YStr ''ich'', YStr ''gehe''), (YStr ''du'', YStr ''gehst'')]),
             (YStr ''sources'', YList [YDict [(YStr ''ppt'', YStr ''a''), (YStr ''slide'', YInt 1)],
                                       YDict [(YStr ''ppt'', YStr ''b''), (YStr ''slide'', YInt 2)],
                                       YDict [(YStr ''ppt'', YStr ''c''), (YStr ''slide'', YInt 3)]])]]"
  have sa: "table_sig ?a = Inr ?sg" by code_simp
  have sb: "table_sig ?b = Inr ?sg" by code_simp
  have d: "dedupe_tables [YDict ?a, YDict ?b] = Inr ?out" by code_simp
  have xa: "sources_of ?a = [YDict [(YStr ''ppt'', YStr ''a''), (YStr ''slide'', YInt 1)],
                             YDict [(YStr ''ppt'', YStr ''b''), (YStr ''slide'', YInt 2)]]" by code_simp
  have xb: "sources_of ?b = [YDict [(YStr ''ppt'', YStr ''b''), (YStr ''slide'', YInt 2)],
                             YDict [(YStr ''ppt'', YStr ''c''), (YStr ''slide'', YInt 3)]]" by code_simp
  from merge_keeps_first_table[THEN conjunct2, THEN mp, OF conjI[OF sa conjI[OF sb d]]]
  obtain added where "distinct (prov_keys added)"
    "set (prov_keys (sources_of ?b)) \<subseteq> set (prov_keys (sources_of ?a @ added))" by blast
  then have "\<exists>added. set (prov_keys (sources_of ?b)) \<subseteq> set (prov_keys (sources_of ?a @ added))
      \<and> distinct (prov_keys added)" by blast
  then show ?thesis using sa sb d unfolding xa xb by blast
qed

end
